theory Spec2Isabelle
  imports Main "HOL-Library.Word"
begin

unbundle bit_operations_syntax

section \<open>circam: a circular webcam viewer (circam.c)\<close>

text \<open>
  The program is one C file: \<^verbatim>\<open>create_circular_shape\<close> and \<^verbatim>\<open>main\<close>.
  Values of C type \<^verbatim>\<open>int\<close> are modelled as \<^typ>\<open>int\<close> with the 32-bit
  two's-complement wrap-around written out (\<open>wrap32\<close>) at every arithmetic operation
  whose result can leave the range; \<^verbatim>\<open>Uint32\<close> values are \<^typ>\<open>32 word\<close>.
  Everything the libraries and the kernel driver answer (SDL, V4L2 ioctls, select, mmap)
  is an input of the model; every call the program makes that a claim speaks about is
  appended to a trace.
\<close>

subsection \<open>Constants (circam.c, lines 13-17)\<close>

definition DEFAULT_SIZE :: int where
  "DEFAULT_SIZE = 480"

definition MIN_SIZE :: int where
  "MIN_SIZE = 100"

definition MIN_WINDOW_SIZE :: int where
  "MIN_WINDOW_SIZE = 50"

definition SIZE_STEP :: int where
  "SIZE_STEP = 10"

definition RESIZE_STABILIZE_MS :: "32 word" where
  "RESIZE_STABILIZE_MS = 100"

subsection \<open>C integer arithmetic\<close>

definition INT_MAX :: int where
  "INT_MAX = 2147483647"

text \<open>The value a 32-bit two's-complement \<^verbatim>\<open>int\<close> holds after an operation whose
  mathematical result is \<open>v\<close>.\<close>

definition wrap32 :: "int \<Rightarrow> int" where
  "wrap32 v = (v + 2147483648) mod 4294967296 - 2147483648"

text \<open>C's \<^verbatim>\<open>/\<close> on \<^verbatim>\<open>int\<close> truncates towards zero.\<close>

definition c_div :: "int \<Rightarrow> int \<Rightarrow> int" where
  "c_div a b = sgn a * sgn b * (\<bar>a\<bar> div \<bar>b\<bar>)"

subsection \<open>The shape mask (circam.c, lines 34-56)\<close>

text \<open>
  An \<^verbatim>\<open>SDL_Surface\<close> of depth 32: its width, its height and its pixel memory.
  \<open>surf_pixels\<close> is indexed as the C code indexes \<^verbatim>\<open>Uint32 *pixels\<close>: by the
  offset from the start of the buffer; the offsets \<open>0 ..< w * h\<close> are the surface.
\<close>

record SDL_Surface =
  surf_w :: int
  surf_h :: int
  surf_pixels :: "int \<Rightarrow> 32 word"

text \<open>
  \<^verbatim>\<open>SDL_MapRGBA\<close> for the pixel format the surface is created with on line 35
  (masks R = 0xFF0000, G = 0xFF00, B = 0xFF, A = 0xFF000000): the library packs the four
  bytes under these masks.
\<close>

definition SDL_MapRGBA :: "8 word \<Rightarrow> 8 word \<Rightarrow> 8 word \<Rightarrow> 8 word \<Rightarrow> 32 word" where
  "SDL_MapRGBA r g b a =
     push_bit 24 (ucast a) OR push_bit 16 (ucast r) OR push_bit 8 (ucast g) OR ucast b"

text \<open>The alpha byte of a pixel of that format.\<close>

definition alpha_of :: "32 word \<Rightarrow> 8 word" where
  "alpha_of p = ucast (drop_bit 24 p)"

text \<open>
  The inner loop (lines 48-53), from column \<open>x\<close> on. \<open>x < sz\<close> and \<open>sz\<close> (the C variable \<^verbatim>\<open>size\<close>) is an
  \<^verbatim>\<open>int\<close>, so \<^verbatim>\<open>x++\<close> cannot overflow.
\<close>

function fill_row ::
  "int \<Rightarrow> int \<Rightarrow> int \<Rightarrow> 32 word \<Rightarrow> int \<Rightarrow> int \<Rightarrow> int \<Rightarrow> (int \<Rightarrow> 32 word) \<Rightarrow> (int \<Rightarrow> 32 word)" where
  "fill_row sz center radius white y dy2 x pixels =
     (if x < sz then
        (let dx = wrap32 (x - center) in
         fill_row sz center radius white y dy2 (x + 1)
           (if wrap32 (wrap32 (dx * dx) + dy2) \<le> radius
            then pixels(wrap32 (wrap32 (y * sz) + x) := white)
            else pixels))
      else pixels)"
  by pat_completeness auto
termination
  by (relation "measure (\<lambda>(sz, center, radius, white, y, dy2, x, pixels). nat (sz - x))") auto

text \<open>The outer loop (lines 45-54), from row \<open>y\<close> on.\<close>

function fill_rows ::
  "int \<Rightarrow> int \<Rightarrow> int \<Rightarrow> 32 word \<Rightarrow> int \<Rightarrow> (int \<Rightarrow> 32 word) \<Rightarrow> (int \<Rightarrow> 32 word)" where
  "fill_rows sz center radius white y pixels =
     (if y < sz then
        (let dy = wrap32 (y - center);
             dy2 = wrap32 (dy * dy)
         in fill_rows sz center radius white (y + 1)
              (fill_row sz center radius white y dy2 0 pixels))
      else pixels)"
  by pat_completeness auto
termination
  by (relation "measure (\<lambda>(sz, center, radius, white, y, pixels). nat (sz - y))") auto

declare fill_row.simps [simp del] fill_rows.simps [simp del]

text \<open>
  \<^verbatim>\<open>create_circular_shape\<close>. \<open>surface_ok\<close> says whether \<^verbatim>\<open>SDL_CreateRGBSurface\<close>
  returned a surface. \<open>Inl msg\<close>: the function printed \<open>msg\<close> to standard error and
  returned \<^verbatim>\<open>NULL\<close>. Otherwise the surface is filled with the transparent colour
  (line 40) and the loops paint the disc. A write through an index outside the surface
  lands at that offset of the same memory, as the unchecked C store does.
\<close>

definition create_circular_shape :: "bool \<Rightarrow> int \<Rightarrow> string + SDL_Surface" where
  "create_circular_shape surface_ok sz =
     (if \<not> surface_ok then Inl ''SDL_CreateRGBSurface failed''
      else
        (let center = c_div sz 2;
             radius = wrap32 (center * center);
             white = SDL_MapRGBA 255 255 255 255
         in Inr \<lparr>surf_w = sz, surf_h = sz,
                 surf_pixels = fill_rows sz center radius white 0
                                 (\<lambda>i. SDL_MapRGBA 0 0 0 0)\<rparr>))"

text \<open>The pixel of a surface at column \<open>x\<close> of row \<open>y\<close>.\<close>

definition pixel_at :: "SDL_Surface \<Rightarrow> int \<Rightarrow> int \<Rightarrow> 32 word" where
  "pixel_at s x y = surf_pixels s (y * surf_w s + x)"

subsection \<open>What the program does to the outside: the trace\<close>

text \<open>
  One entry per call, in program order. \<open>Commit_size v\<close> marks the assignment
  \<^verbatim>\<open>current_window_size = v\<close>; \<open>Create_circular_shape n\<close> the call
  \<^verbatim>\<open>create_circular_shape(n)\<close>; \<open>SDL_SetWindowShape n\<close> the call that applies the
  mask just created for size \<open>n\<close>; \<open>Render n\<close> the three render calls of lines 388-391
  with an \<open>n\<close> by \<open>n\<close> destination rectangle; \<open>Select t\<close> the \<^verbatim>\<open>select\<close> call with a
  timeout of \<open>t\<close> seconds.
\<close>

datatype effect =
    Perror string
  | Fprintf_stderr string
  | Printf string "int list"
  | SDL_Quit
  | Close
  | Free
  | Munmap nat
  | Streamoff
  | SDL_DestroyWindow
  | SDL_DestroyRenderer
  | SDL_DestroyTexture
  | SDL_SetWindowSize int int
  | SDL_GetWindowSize
  | SDL_FreeSurface
  | Create_circular_shape int
  | SDL_SetWindowShape int
  | Commit_size int
  | SDL_SetWindowPosition int int
  | Render int
  | Select nat
  | SDL_UpdateTexture nat

subsection \<open>The state of \<^verbatim>\<open>main\<close>\<close>

text \<open>
  The globals of lines 26-31, the locals of \<^verbatim>\<open>main\<close> that outlive one statement, and
  the kernel driver's side of the buffer pool: \<open>mapped\<close> lists the buffer indices with
  a live memory mapping, \<open>queued\<close> the indices the driver holds in its queue (in queueing
  order), \<open>dequeued\<close> the indices handed back to the program by \<^verbatim>\<open>VIDIOC_DQBUF\<close>
  and not queued again. The byte lengths of the buffers are left out.
\<close>

record state =
  window_size :: int
  current_window_size :: int
  shape_surface :: "SDL_Surface option"
  dragging :: bool
  drag_start_x :: int
  drag_start_y :: int
  win_start_x :: int
  win_start_y :: int
  pending_resize :: bool
  pending_size :: int
  last_resize_time :: "32 word"
  running :: bool
  req_count :: nat
  mapped :: "nat list"
  queued :: "nat list"
  dequeued :: "nat list"
  trace :: "effect list"

text \<open>What SDL answers while one event (or the stabilisation check) is handled.\<close>

record sdl_env =
  ticks :: "32 word"
  surface_ok :: bool
  mouse_x :: int
  mouse_y :: int
  win_x :: int
  win_y :: int
  actual_w :: int
  actual_h :: int

datatype keysym = SDLK_ESCAPE | SDLK_PLUS | SDLK_EQUALS | SDLK_MINUS | SDLK_other

datatype button = SDL_BUTTON_LEFT | SDL_BUTTON_other

datatype window_event_id = SDL_WINDOWEVENT_SIZE_CHANGED | SDL_WINDOWEVENT_other

datatype sdl_event =
    SDL_QUIT
  | SDL_KEYDOWN keysym
  | SDL_MOUSEBUTTONDOWN button
  | SDL_MOUSEBUTTONUP button
  | SDL_MOUSEMOTION
  | SDL_MOUSEWHEEL int
  | SDL_WINDOWEVENT window_event_id int int
  | SDL_other_event

subsection \<open>The geometry controller (circam.c, lines 282-385)\<close>

text \<open>
  Lines 295-299, repeated on lines 307-311, 345-349 and 375-379: free the old mask, create
  the mask for \<^verbatim>\<open>window_size\<close>, and apply it if it was created.
\<close>

definition replace_shape :: "sdl_env \<Rightarrow> state \<Rightarrow> state" where
  "replace_shape e s =
     (case create_circular_shape (surface_ok e) (window_size s) of
        Inl msg \<Rightarrow>
          s\<lparr>shape_surface := None,
            trace := trace s @ [SDL_FreeSurface, Create_circular_shape (window_size s),
                                Fprintf_stderr msg]\<rparr>
      | Inr surf \<Rightarrow>
          s\<lparr>shape_surface := Some surf,
            trace := trace s @ [SDL_FreeSurface, Create_circular_shape (window_size s),
                                SDL_SetWindowShape (window_size s)]\<rparr>)"

text \<open>
  Lines 293-300, repeated on lines 305-312 and 343-350: clamp \<^verbatim>\<open>window_size\<close> from
  below, resize the window, replace the mask, then commit \<^verbatim>\<open>current_window_size\<close>.
\<close>

definition resize_window :: "sdl_env \<Rightarrow> state \<Rightarrow> state" where
  "resize_window e s =
     (let s1 = (if window_size s < MIN_WINDOW_SIZE then s\<lparr>window_size := MIN_WINDOW_SIZE\<rparr> else s);
          s2 = s1\<lparr>trace := trace s1 @ [SDL_SetWindowSize (window_size s1) (window_size s1)]\<rparr>;
          s3 = replace_shape e s2
      in s3\<lparr>current_window_size := window_size s3,
            trace := trace s3 @ [Commit_size (window_size s3)]\<rparr>)"

text \<open>The \<^verbatim>\<open>switch\<close> of lines 283-364, one event.\<close>

fun handle_event :: "sdl_env \<Rightarrow> sdl_event \<Rightarrow> state \<Rightarrow> state" where
  "handle_event e SDL_QUIT s = s\<lparr>running := False\<rparr>"
| "handle_event e (SDL_KEYDOWN key) s =
     (if key = SDLK_ESCAPE then s\<lparr>running := False\<rparr>
      else if key = SDLK_PLUS \<or> key = SDLK_EQUALS then
        resize_window e (s\<lparr>window_size := wrap32 (current_window_size s + SIZE_STEP)\<rparr>)
      else if key = SDLK_MINUS then
        resize_window e (s\<lparr>window_size := wrap32 (current_window_size s - SIZE_STEP)\<rparr>)
      else s)"
| "handle_event e (SDL_MOUSEBUTTONDOWN b) s =
     (if b = SDL_BUTTON_LEFT then
        s\<lparr>dragging := True, drag_start_x := mouse_x e, drag_start_y := mouse_y e,
          win_start_x := win_x e, win_start_y := win_y e\<rparr>
      else s)"
| "handle_event e (SDL_MOUSEBUTTONUP b) s =
     (if b = SDL_BUTTON_LEFT then s\<lparr>dragging := False\<rparr> else s)"
| "handle_event e SDL_MOUSEMOTION s =
     (if dragging s then
        (let new_x = wrap32 (win_start_x s + wrap32 (mouse_x e - drag_start_x s));
             new_y = wrap32 (win_start_y s + wrap32 (mouse_y e - drag_start_y s))
         in s\<lparr>trace := trace s @ [SDL_SetWindowPosition new_x new_y]\<rparr>)
      else s)"
| "handle_event e (SDL_MOUSEWHEEL y) s =
     resize_window e
       (if y > 0 then s\<lparr>window_size := wrap32 (current_window_size s + SIZE_STEP)\<rparr>
        else if y < 0 then s\<lparr>window_size := wrap32 (current_window_size s - SIZE_STEP)\<rparr>
        else s)"
| "handle_event e (SDL_WINDOWEVENT ev data1 data2) s =
     (if ev = SDL_WINDOWEVENT_SIZE_CHANGED then
        (let new_size = (if data1 < data2 then data1 else data2) in
         if new_size \<ge> MIN_WINDOW_SIZE \<and> new_size \<noteq> current_window_size s then
           s\<lparr>pending_resize := True, pending_size := new_size, last_resize_time := ticks e\<rparr>
         else s)
      else s)"
| "handle_event e SDL_other_event s = s"

text \<open>The inner loop of line 282: every event SDL has, in order, each with SDL's answers.\<close>

fun poll_events :: "(sdl_env \<times> sdl_event) list \<Rightarrow> state \<Rightarrow> state" where
  "poll_events [] s = s"
| "poll_events ((e, ev) # rest) s = poll_events rest (handle_event e ev s)"

text \<open>
  Lines 368-385. The subtraction and the comparison are on \<^verbatim>\<open>Uint32\<close>; \<open>actual_w\<close> and
  \<open>actual_h\<close> are what \<^verbatim>\<open>SDL_GetWindowSize\<close> reads back.
\<close>

definition check_stabilized_resize :: "sdl_env \<Rightarrow> state \<Rightarrow> state" where
  "check_stabilized_resize e s =
     (if pending_resize s \<and> ticks e - last_resize_time s \<ge> RESIZE_STABILIZE_MS then
        (let s1 = s\<lparr>trace := trace s @ [SDL_SetWindowSize (pending_size s) (pending_size s),
                                        SDL_GetWindowSize]\<rparr>;
             s2 = (if actual_w e = actual_h e \<and> actual_w e = pending_size s then
                     replace_shape e
                       (s1\<lparr>window_size := pending_size s,
                           current_window_size := pending_size s,
                           trace := trace s1 @ [Commit_size (pending_size s)]\<rparr>)
                   else
                     s1\<lparr>trace := trace s1 @
                          [Printf ''Resize failed: requested %dx%d, actual %dx%d''
                             [pending_size s, pending_size s, actual_w e, actual_h e]]\<rparr>)
         in s2\<lparr>pending_resize := False\<rparr>)
      else s)"

text \<open>Lines 388-391.\<close>

definition render :: "state \<Rightarrow> state" where
  "render s = s\<lparr>trace := trace s @ [Render (current_window_size s)]\<rparr>"

subsection \<open>The capture cycle (circam.c, lines 399-430)\<close>

text \<open>
  What the kernel answers in one cycle: the return value of \<^verbatim>\<open>select\<close>; the outcome of
  \<^verbatim>\<open>VIDIOC_DQBUF\<close> (\<open>None\<close>: the ioctl fails; \<open>Some i\<close>: it succeeds and the driver
  has written \<^verbatim>\<open>buf.index = i\<close>); whether the \<^verbatim>\<open>VIDIOC_QBUF\<close> that follows succeeds.
\<close>

record capture_env =
  select_r :: int
  dqbuf_r :: "nat option"
  qbuf_r :: bool

text \<open>
  The driver's side of the two ioctls. A driver hands out only a buffer that is in its
  queue: an answer naming any other index is not one a driver gives and is read as a
  failed ioctl. A successful \<^verbatim>\<open>VIDIOC_QBUF\<close> appends the index to the queue.
\<close>

definition VIDIOC_DQBUF :: "nat option \<Rightarrow> state \<Rightarrow> (nat \<times> state) option" where
  "VIDIOC_DQBUF r s =
     (case r of
        None \<Rightarrow> None
      | Some i \<Rightarrow>
          if i \<in> set (queued s)
          then Some (i, s\<lparr>queued := remove1 i (queued s), dequeued := dequeued s @ [i]\<rparr>)
          else None)"

definition VIDIOC_QBUF :: "bool \<Rightarrow> nat \<Rightarrow> state \<Rightarrow> state option" where
  "VIDIOC_QBUF ok i s =
     (if ok then Some (s\<lparr>queued := queued s @ [i], dequeued := remove1 i (dequeued s)\<rparr>)
      else None)"

definition capture_cycle :: "capture_env \<Rightarrow> state \<Rightarrow> state" where
  "capture_cycle c s =
     (let s1 = s\<lparr>trace := trace s @ [Select 2]\<rparr> in
      if select_r c < 0 then s1\<lparr>trace := trace s1 @ [Perror ''select'']\<rparr>
      else if select_r c = 0 then s1\<lparr>trace := trace s1 @ [Fprintf_stderr ''select timeout'']\<rparr>
      else
        (case VIDIOC_DQBUF (dqbuf_r c) s1 of
           None \<Rightarrow> s1\<lparr>trace := trace s1 @ [Perror ''VIDIOC_DQBUF'']\<rparr>
         | Some (i, s2) \<Rightarrow>
             (let s3 = s2\<lparr>trace := trace s2 @ [SDL_UpdateTexture i]\<rparr> in
              case VIDIOC_QBUF (qbuf_r c) i s3 of
                None \<Rightarrow> s3\<lparr>trace := trace s3 @ [Perror ''VIDIOC_QBUF'']\<rparr>
              | Some s4 \<Rightarrow> s4)))"

subsection \<open>The main loop (circam.c, lines 281-431) and the cleanup (lines 433-446)\<close>

record iter_input =
  events :: "(sdl_env \<times> sdl_event) list"
  check_env :: sdl_env
  capture :: capture_env

definition loop_body :: "iter_input \<Rightarrow> state \<Rightarrow> state" where
  "loop_body it s =
     capture_cycle (capture it)
       (render (check_stabilized_resize (check_env it) (poll_events (events it) s)))"

text \<open>
  \<^verbatim>\<open>while (running)\<close>, over the inputs of as many iterations as the list holds. Every
  \<^verbatim>\<open>continue\<close> of the body is at its end, so it goes to the next test of \<open>running\<close>.
\<close>

fun main_loop :: "iter_input list \<Rightarrow> state \<Rightarrow> state" where
  "main_loop [] s = s"
| "main_loop (it # its) s = (if running s then main_loop its (loop_body it s) else s)"

definition cleanup :: "state \<Rightarrow> state" where
  "cleanup s =
     s\<lparr>shape_surface := None,
       mapped := filter (\<lambda>i. \<not> i < req_count s) (mapped s),
       trace := trace s @
         [SDL_DestroyTexture, SDL_FreeSurface, SDL_DestroyRenderer, SDL_DestroyWindow, Streamoff] @
         map Munmap [0 ..< req_count s] @ [Free, Close, SDL_Quit]\<rparr>"

subsection \<open>Start-up (circam.c, lines 58-276)\<close>

text \<open>
  The command line (lines 63-96). \<open>args\<close> is \<^verbatim>\<open>argv[1]\<close> to \<^verbatim>\<open>argv[argc - 1]\<close>; the
  C library's \<^verbatim>\<open>atoi\<close> is a parameter. The loop keeps \<^verbatim>\<open>always_on_top\<close>,
  \<^verbatim>\<open>window_size\<close> and \<^verbatim>\<open>video_device\<close>; \<open>Inl msgs\<close> is \<^verbatim>\<open>return 1\<close> after printing
  \<open>msgs\<close> to standard error.
\<close>

fun parse_loop ::
  "(string \<Rightarrow> int) \<Rightarrow> string list \<Rightarrow> bool \<times> int \<times> string option \<Rightarrow>
     string list + bool \<times> int \<times> string option" where
  "parse_loop atoi [] acc = Inr acc"
| "parse_loop atoi (a # rest) (always_on_top, wsize, video_device) =
     (if a = ''-t'' then parse_loop atoi rest (True, wsize, video_device)
      else if a = ''-s'' then
        (case rest of
           [] \<Rightarrow> Inl [''Error: -s requires a size value'']
         | v # rest' \<Rightarrow>
             if atoi v < MIN_SIZE then Inl [''Error: Size must be at least 100 pixels'']
             else parse_loop atoi rest' (always_on_top, atoi v, video_device))
      else parse_loop atoi rest (always_on_top, wsize, Some a))"

definition parse_args ::
  "(string \<Rightarrow> int) \<Rightarrow> string list \<Rightarrow> string list + bool \<times> int \<times> string" where
  "parse_args atoi args =
     (if length args + 1 < 2 \<or> length args + 1 > 5 then Inl [''Usage'', ''Example'']
      else
        (case parse_loop atoi args (False, DEFAULT_SIZE, None) of
           Inl msgs \<Rightarrow> Inl msgs
         | Inr (always_on_top, wsize, None) \<Rightarrow> Inl [''Error: No video device specified'', ''Usage'']
         | Inr (always_on_top, wsize, Some dev) \<Rightarrow> Inr (always_on_top, wsize, dev)))"

text \<open>What SDL and the kernel answer during start-up.\<close>

record boot_env =
  sdl_init_ok :: bool
  open_ok :: bool
  querycap_ok :: bool
  can_capture :: bool
  s_fmt_ok :: bool
  reqbufs_r :: "nat option"
  querybuf_ok :: "nat \<Rightarrow> bool"
  mmap_ok :: "nat \<Rightarrow> bool"
  qbuf_ok :: "nat \<Rightarrow> bool"
  streamon_ok :: bool
  window_ok :: bool
  renderer_ok :: bool
  shape_ok :: bool
  texture_ok :: bool

text \<open>
  The state when \<^verbatim>\<open>main\<close> starts on the device: the globals as initialised on lines
  26-31, \<open>window_size\<close> from the command line. \<open>current_window_size\<close> is declared and
  set on line 276 only; until then the field is not read.
\<close>

definition initial_state :: "int \<Rightarrow> state" where
  "initial_state wsize =
     \<lparr>window_size = wsize, current_window_size = 0, shape_surface = None,
      dragging = False, drag_start_x = 0, drag_start_y = 0, win_start_x = 0, win_start_y = 0,
      pending_resize = False, pending_size = 0, last_resize_time = 0,
      running = True, req_count = 0, mapped = [], queued = [], dequeued = [], trace = []\<rparr>"

text \<open>
  Lines 165-189: map the \<^verbatim>\<open>req.count\<close> buffers, from index \<open>i\<close> on. \<open>Inl (1, s)\<close> is
  \<^verbatim>\<open>return 1\<close> in state \<open>s\<close>.
\<close>

function map_buffers :: "boot_env \<Rightarrow> nat \<Rightarrow> state \<Rightarrow> int \<times> state + state" where
  "map_buffers b i s =
     (if i < req_count s then
        (if \<not> querybuf_ok b i then
           Inl (1, s\<lparr>trace := trace s @ [Perror ''VIDIOC_QUERYBUF'', Free, Close, SDL_Quit]\<rparr>)
         else if \<not> mmap_ok b i then
           Inl (1, s\<lparr>trace := trace s @ [Perror ''mmap'', Free, Close, SDL_Quit]\<rparr>)
         else map_buffers b (i + 1) (s\<lparr>mapped := mapped s @ [i]\<rparr>))
      else Inr s)"
  by pat_completeness auto
termination
  by (relation "measure (\<lambda>(b, i, s). req_count s - i)") auto

text \<open>Lines 191-205: queue every buffer, from index \<open>i\<close> on.\<close>

function queue_buffers :: "boot_env \<Rightarrow> nat \<Rightarrow> state \<Rightarrow> int \<times> state + state" where
  "queue_buffers b i s =
     (if i < req_count s then
        (case VIDIOC_QBUF (qbuf_ok b i) i s of
           None \<Rightarrow> Inl (1, s\<lparr>trace := trace s @ [Perror ''VIDIOC_QBUF'', Free, Close, SDL_Quit]\<rparr>)
         | Some s' \<Rightarrow> queue_buffers b (i + 1) s')
      else Inr s)"
  by pat_completeness auto
termination
  by (relation "measure (\<lambda>(b, i, s). req_count s - i)")
     (auto simp: VIDIOC_QBUF_def split: if_splits)

declare map_buffers.simps [simp del] queue_buffers.simps [simp del]

text \<open>Lines 152-205: request four buffers, map what the driver granted, queue it.\<close>

definition allocate_buffers :: "boot_env \<Rightarrow> state \<Rightarrow> int \<times> state + state" where
  "allocate_buffers b s =
     (case reqbufs_r b of
        None \<Rightarrow> Inl (1, s\<lparr>trace := trace s @ [Perror ''VIDIOC_REQBUFS'', Close, SDL_Quit]\<rparr>)
      | Some granted \<Rightarrow>
          (case map_buffers b 0 (s\<lparr>req_count := granted\<rparr>) of
             Inl r \<Rightarrow> Inl r
           | Inr s' \<Rightarrow> queue_buffers b 0 s'))"

text \<open>Lines 98-141: SDL, the device, its capabilities and the format.\<close>

definition open_device :: "boot_env \<Rightarrow> state \<Rightarrow> int \<times> state + state" where
  "open_device b s =
     (if \<not> sdl_init_ok b then Inl (1, s\<lparr>trace := trace s @ [Fprintf_stderr ''SDL_Init failed'']\<rparr>)
      else if \<not> open_ok b then
        Inl (1, s\<lparr>trace := trace s @ [Perror ''Cannot open device'', SDL_Quit]\<rparr>)
      else if \<not> querycap_ok b then
        Inl (1, s\<lparr>trace := trace s @ [Perror ''VIDIOC_QUERYCAP'', Close, SDL_Quit]\<rparr>)
      else if \<not> can_capture b then
        Inl (1, s\<lparr>trace := trace s @
               [Fprintf_stderr ''Device does not support video capture'', Close, SDL_Quit]\<rparr>)
      else if \<not> s_fmt_ok b then
        Inl (1, s\<lparr>trace := trace s @ [Perror ''VIDIOC_S_FMT'', Close, SDL_Quit]\<rparr>)
      else Inr s)"

text \<open>Lines 207-276: streaming, the window, the renderer, the first mask, the texture.\<close>

definition open_window :: "boot_env \<Rightarrow> state \<Rightarrow> int \<times> state + state" where
  "open_window b s =
     (if \<not> streamon_ok b then
        Inl (1, s\<lparr>trace := trace s @ [Perror ''VIDIOC_STREAMON'', Free, Close, SDL_Quit]\<rparr>)
      else if \<not> window_ok b then
        Inl (1, s\<lparr>trace := trace s @
               [Fprintf_stderr ''SDL_CreateShapedWindow failed'', Streamoff, Free, Close, SDL_Quit]\<rparr>)
      else if \<not> renderer_ok b then
        Inl (1, s\<lparr>trace := trace s @
               [Fprintf_stderr ''SDL_CreateRenderer failed'', SDL_DestroyWindow, Streamoff,
                Free, Close, SDL_Quit]\<rparr>)
      else
        (case create_circular_shape (shape_ok b) (window_size s) of
           Inl msg \<Rightarrow>
             Inl (1, s\<lparr>trace := trace s @
                    [Create_circular_shape (window_size s), Fprintf_stderr msg,
                     SDL_DestroyRenderer, SDL_DestroyWindow, Streamoff, Free, Close, SDL_Quit]\<rparr>)
         | Inr surf \<Rightarrow>
             (let s1 = s\<lparr>shape_surface := Some surf,
                         trace := trace s @ [Create_circular_shape (window_size s),
                                             SDL_SetWindowShape (window_size s)]\<rparr>
              in if \<not> texture_ok b then
                   Inl (1, s1\<lparr>shape_surface := None,
                           trace := trace s1 @
                             [Fprintf_stderr ''SDL_CreateTexture failed'', SDL_FreeSurface,
                              SDL_DestroyRenderer, SDL_DestroyWindow, Streamoff, Free, Close,
                              SDL_Quit]\<rparr>)
                 else
                   Inr (s1\<lparr>current_window_size := window_size s1,
                           trace := trace s1 @ [Commit_size (window_size s1)]\<rparr>))))"

definition startup :: "boot_env \<Rightarrow> int \<Rightarrow> int \<times> state + state" where
  "startup b wsize =
     (case open_device b (initial_state wsize) of
        Inl r \<Rightarrow> Inl r
      | Inr s1 \<Rightarrow>
          (case allocate_buffers b s1 of
             Inl r \<Rightarrow> Inl r
           | Inr s2 \<Rightarrow> open_window b s2))"

text \<open>
  \<^verbatim>\<open>main\<close>: the exit code and the final state, or \<open>None\<close> when the loop is still running
  after the last iteration the input list describes.
\<close>

definition circam_main ::
  "(string \<Rightarrow> int) \<Rightarrow> string list \<Rightarrow> boot_env \<Rightarrow> iter_input list \<Rightarrow> (int \<times> state) option" where
  "circam_main atoi args b its =
     (case parse_args atoi args of
        Inl msgs \<Rightarrow> Some (1, (initial_state DEFAULT_SIZE)\<lparr>trace := map Fprintf_stderr msgs\<rparr>)
      | Inr (always_on_top, wsize, dev) \<Rightarrow>
          (case startup b wsize of
             Inl r \<Rightarrow> Some r
           | Inr s \<Rightarrow>
               (let s' = main_loop its s in
                if running s' then None else Some (0, cleanup s'))))"

subsection \<open>Notions the properties are stated with\<close>

text \<open>
  The test of line 50 and the index of line 51 as the machine evaluates them, for the
  pixel at column \<open>x\<close> of row \<open>y\<close>.
\<close>

definition paints :: "int \<Rightarrow> int \<Rightarrow> int \<Rightarrow> int \<Rightarrow> bool" where
  "paints center radius x y =
     (wrap32 (wrap32 (wrap32 (x - center) * wrap32 (x - center)) +
              wrap32 (wrap32 (y - center) * wrap32 (y - center))) \<le> radius)"

definition offset :: "int \<Rightarrow> int \<Rightarrow> int \<Rightarrow> int" where
  "offset sz x y = wrap32 (wrap32 (y * sz) + x)"

text \<open>
  The mask pointer after a call of \<^verbatim>\<open>create_circular_shape\<close>, the calls of one mask
  replacement (lines 295-299), and the lower clamp of lines 293, 305 and 343.
\<close>

definition shape_of :: "bool \<Rightarrow> int \<Rightarrow> SDL_Surface option" where
  "shape_of ok n = (case create_circular_shape ok n of Inl msg \<Rightarrow> None | Inr surf \<Rightarrow> Some surf)"

definition shape_calls :: "bool \<Rightarrow> int \<Rightarrow> effect list" where
  "shape_calls ok n =
     [SDL_FreeSurface, Create_circular_shape n,
      if ok then SDL_SetWindowShape n else Fprintf_stderr ''SDL_CreateRGBSurface failed'']"

definition clamp_min :: "int \<Rightarrow> int" where
  "clamp_min v = (if v < MIN_WINDOW_SIZE then MIN_WINDOW_SIZE else v)"

text \<open>
  One resize step of the keyboard or the wheel: its direction, its sign, the key event and
  the wheel event that ask for it (a wheel event of any magnitude \<open>1 + n\<close>), the size
  after one step as lines 292-293 compute it, and the step sequences along which the
  clamp and the \<^verbatim>\<open>int\<close> range never cut in.
\<close>

datatype step = Up | Down

fun delta :: "step \<Rightarrow> int" where
  "delta Up = 1"
| "delta Down = - 1"

fun key_event :: "step \<Rightarrow> sdl_event" where
  "key_event Up = SDL_KEYDOWN SDLK_PLUS"
| "key_event Down = SDL_KEYDOWN SDLK_MINUS"

definition wheel_event :: "step \<Rightarrow> nat \<Rightarrow> sdl_event" where
  "wheel_event d n = SDL_MOUSEWHEEL (delta d * (1 + int n))"

definition apply_delta :: "int \<Rightarrow> int \<Rightarrow> int" where
  "apply_delta current_size delta_steps = clamp_min (wrap32 (current_size + delta_steps * SIZE_STEP))"

fun unclamped :: "int \<Rightarrow> int list \<Rightarrow> bool" where
  "unclamped c [] = True"
| "unclamped c (d # ds) =
     (MIN_WINDOW_SIZE \<le> c + d * SIZE_STEP \<and> c + d * SIZE_STEP \<le> INT_MAX \<and>
      unclamped (c + d * SIZE_STEP) ds)"

text \<open>
  Example inputs: SDL's answers at time \<open>t\<close> while the window measures \<open>w\<close> by \<open>h\<close>
  and surfaces can be created; a start-up in which every call succeeds and the driver
  grants \<open>n\<close> buffers; the state \<^verbatim>\<open>main\<close> enters its loop with after such a start-up
  with four buffers.
\<close>

definition env_at :: "32 word \<Rightarrow> int \<Rightarrow> int \<Rightarrow> sdl_env" where
  "env_at t w h =
     \<lparr>ticks = t, surface_ok = True, mouse_x = 0, mouse_y = 0, win_x = 0, win_y = 0,
      actual_w = w, actual_h = h\<rparr>"

definition boot_granting :: "nat \<Rightarrow> boot_env" where
  "boot_granting n =
     \<lparr>sdl_init_ok = True, open_ok = True, querycap_ok = True, can_capture = True,
      s_fmt_ok = True, reqbufs_r = Some n, querybuf_ok = (\<lambda>i. True), mmap_ok = (\<lambda>i. True),
      qbuf_ok = (\<lambda>i. True), streamon_ok = True, window_ok = True, renderer_ok = True,
      shape_ok = True, texture_ok = True\<rparr>"

definition started :: "int \<Rightarrow> state" where
  "started n = projr (startup (boot_granting 4) n)"

text \<open>
  The values assigned to \<^verbatim>\<open>current_window_size\<close> along a trace, and the invariant of the
  sizes: the current size and a pending size are at least \<open>MIN_WINDOW_SIZE\<close>, and so is
  every size committed so far.
\<close>

definition committed_sizes :: "effect list \<Rightarrow> int list" where
  "committed_sizes tr = concat (map (\<lambda>ef. case ef of Commit_size v \<Rightarrow> [v] | _ \<Rightarrow> []) tr)"

definition size_inv :: "state \<Rightarrow> bool" where
  "size_inv s =
     (MIN_WINDOW_SIZE \<le> current_window_size s \<and>
      (pending_resize s \<longrightarrow> MIN_WINDOW_SIZE \<le> pending_size s) \<and>
      list_all (\<lambda>v. MIN_WINDOW_SIZE \<le> v) (committed_sizes (trace s)))"

text \<open>
  The events that resize at once (plus, equals, minus, any wheel event), and the size such
  an event asks for in state \<open>s\<close>: the value of \<^verbatim>\<open>window_size\<close> after the clamp of
  line 293, 305 or 343.
\<close>

fun resize_input :: "sdl_event \<Rightarrow> bool" where
  "resize_input (SDL_KEYDOWN key) = (key = SDLK_PLUS \<or> key = SDLK_EQUALS \<or> key = SDLK_MINUS)"
| "resize_input (SDL_MOUSEWHEEL y) = True"
| "resize_input ev = False"

fun target_size :: "state \<Rightarrow> sdl_event \<Rightarrow> int" where
  "target_size s (SDL_KEYDOWN key) =
     clamp_min (if key = SDLK_MINUS then wrap32 (current_window_size s - SIZE_STEP)
                else wrap32 (current_window_size s + SIZE_STEP))"
| "target_size s (SDL_MOUSEWHEEL y) =
     clamp_min (if y > 0 then wrap32 (current_window_size s + SIZE_STEP)
                else if y < 0 then wrap32 (current_window_size s - SIZE_STEP)
                else window_size s)"
| "target_size s ev = current_window_size s"

text \<open>In a trace, \<open>b\<close> occurs somewhere after the first \<open>a\<close>.\<close>

fun occurs_before :: "'a \<Rightarrow> 'a \<Rightarrow> 'a list \<Rightarrow> bool" where
  "occurs_before a b [] = False"
| "occurs_before a b (x # xs) = (if x = a then b \<in> set xs else occurs_before a b xs)"

text \<open>The state after five presses of minus from \<open>started 100\<close>: the size is at the floor.\<close>

definition shrunk :: state where
  "shrunk =
     poll_events
       [(env_at 0 100 100, SDL_KEYDOWN SDLK_MINUS), (env_at 0 90 90, SDL_KEYDOWN SDLK_MINUS),
        (env_at 0 80 80, SDL_KEYDOWN SDLK_MINUS), (env_at 0 70 70, SDL_KEYDOWN SDLK_MINUS),
        (env_at 0 60 60, SDL_KEYDOWN SDLK_MINUS)] (started 100)"

text \<open>
  A window-manager resize: the candidate size of line 355, the event that reports \<open>w\<close> by
  \<open>h\<close>, the events of a burst that pass the test of line 356 in a state whose current
  size is \<open>cur\<close>, and the \<^verbatim>\<open>SDL_SetWindowSize\<close> calls of a trace.
\<close>

definition candidate :: "int \<Rightarrow> int \<Rightarrow> int" where
  "candidate w h = (if w < h then w else h)"

definition size_changed :: "int \<Rightarrow> int \<Rightarrow> sdl_event" where
  "size_changed w h = SDL_WINDOWEVENT SDL_WINDOWEVENT_SIZE_CHANGED w h"

definition recorded :: "int \<Rightarrow> (sdl_env \<times> int \<times> int) list \<Rightarrow> (sdl_env \<times> int \<times> int) list" where
  "recorded cur burst =
     filter (\<lambda>(e, w, h). MIN_WINDOW_SIZE \<le> candidate w h \<and> candidate w h \<noteq> cur) burst"

definition window_resizes :: "effect list \<Rightarrow> (int \<times> int) list" where
  "window_resizes tr =
     concat (map (\<lambda>ef. case ef of SDL_SetWindowSize w h \<Rightarrow> [(w, h)] | _ \<Rightarrow> []) tr)"

text \<open>
  The events that ask the program to stop (line 284 and line 288), and the runs in which
  no such event arrives.
\<close>

fun quit_event :: "sdl_event \<Rightarrow> bool" where
  "quit_event SDL_QUIT = True"
| "quit_event (SDL_KEYDOWN key) = (key = SDLK_ESCAPE)"
| "quit_event ev = False"

definition no_quit :: "iter_input list \<Rightarrow> bool" where
  "no_quit its = list_all (\<lambda>it. list_all (\<lambda>(e, ev). \<not> quit_event ev) (events it)) its"

text \<open>
  The buffer pool is conserved: no index is queued twice or both queued and dequeued, and
  the queued and the dequeued indices together are the \<^verbatim>\<open>req.count\<close> buffers.
\<close>

definition pool_inv :: "state \<Rightarrow> bool" where
  "pool_inv s =
     (distinct (queued s @ dequeued s) \<and> set (queued s @ dequeued s) = {0 ..< req_count s})"

section \<open>Properties\<close>

subsection \<open>Machine arithmetic and pixel values\<close>

lemma wrap32_id: "- 2147483648 \<le> v \<Longrightarrow> v \<le> 2147483647 \<Longrightarrow> wrap32 v = v"
  by (simp add: wrap32_def)

lemma wrap32_range: "- 2147483648 \<le> wrap32 v \<and> wrap32 v \<le> 2147483647"
  unfolding wrap32_def
  using pos_mod_bound [of 4294967296 "v + 2147483648"] pos_mod_sign [of 4294967296 "v + 2147483648"]
  by linarith

lemma alpha_white: "alpha_of (SDL_MapRGBA 255 255 255 255) = 255"
  by (simp add: SDL_MapRGBA_def alpha_of_def)

lemma alpha_clear: "alpha_of (SDL_MapRGBA 0 0 0 0) = 0"
  by (simp add: SDL_MapRGBA_def alpha_of_def)

subsection \<open>What the two loops of \<^verbatim>\<open>create_circular_shape\<close> write\<close>

lemma fill_row_char:
  "fill_row sz center radius white y dy2 x pixels i =
     (if \<exists>x'. x \<le> x' \<and> x' < sz \<and>
            wrap32 (wrap32 (wrap32 (x' - center) * wrap32 (x' - center)) + dy2) \<le> radius \<and>
            wrap32 (wrap32 (y * sz) + x') = i
      then white else pixels i)"
proof (induction sz center radius white y dy2 x pixels rule: fill_row.induct)
  case (1 sz center radius white y dy2 x pixels)
  show ?case
  proof (cases "x < sz")
    case False
    then show ?thesis by (subst fill_row.simps) auto
  next
    case True
    let ?P = "\<lambda>x'. x' < sz \<and>
            wrap32 (wrap32 (wrap32 (x' - center) * wrap32 (x' - center)) + dy2) \<le> radius \<and>
            wrap32 (wrap32 (y * sz) + x') = i"
    have split: "(\<exists>x'. x \<le> x' \<and> ?P x') \<longleftrightarrow> ?P x \<or> (\<exists>x'. x + 1 \<le> x' \<and> ?P x')"
    proof
      assume "\<exists>x'. x \<le> x' \<and> ?P x'"
      then obtain x' where a: "x \<le> x'" "?P x'" by blast
      show "?P x \<or> (\<exists>x'. x + 1 \<le> x' \<and> ?P x')"
      proof (cases "x' = x")
        case True with a show ?thesis by blast
      next
        case False
        with a have "x + 1 \<le> x'" by simp
        with a show ?thesis by blast
      qed
    next
      assume "?P x \<or> (\<exists>x'. x + 1 \<le> x' \<and> ?P x')"
      then show "\<exists>x'. x \<le> x' \<and> ?P x'"
      proof
        assume "?P x" then show ?thesis by (intro exI [of _ x]) simp
      next
        assume "\<exists>x'. x + 1 \<le> x' \<and> ?P x'"
        then obtain x' where "x + 1 \<le> x'" "?P x'" by blast
        then show ?thesis by (intro exI [of _ x']) simp
      qed
    qed
    show ?thesis
      apply (subst fill_row.simps)
      apply (subst split)
      using True "1.IH" [OF True refl]
      apply (simp add: Let_def)
      apply auto
      done
  qed
qed

lemma fill_row_paints:
  "fill_row sz center radius white y (wrap32 (wrap32 (y - center) * wrap32 (y - center))) x pixels i =
     (if \<exists>x'. x \<le> x' \<and> x' < sz \<and> paints center radius x' y \<and> offset sz x' y = i
      then white else pixels i)"
  by (simp add: fill_row_char paints_def offset_def)

lemma if_nested: "(if B then w else if A then w else p) = (if A \<or> B then w else p)"
  by simp

lemma fill_rows_char:
  "fill_rows sz center radius white y pixels i =
     (if \<exists>y' x'. y \<le> y' \<and> y' < sz \<and> 0 \<le> x' \<and> x' < sz \<and>
            paints center radius x' y' \<and> offset sz x' y' = i
      then white else pixels i)"
proof (induction sz center radius white y pixels rule: fill_rows.induct)
  case (1 sz center radius white y pixels)
  show ?case
  proof (cases "y < sz")
    case False
    then show ?thesis by (subst fill_rows.simps) auto
  next
    case True
    let ?Q = "\<lambda>y' x'. y' < sz \<and> 0 \<le> x' \<and> x' < sz \<and>
            paints center radius x' y' \<and> offset sz x' y' = i"
    have split: "(\<exists>y' x'. y \<le> y' \<and> ?Q y' x') \<longleftrightarrow>
                 (\<exists>x'. ?Q y x') \<or> (\<exists>y' x'. y + 1 \<le> y' \<and> ?Q y' x')"
    proof
      assume "\<exists>y' x'. y \<le> y' \<and> ?Q y' x'"
      then obtain y' x' where a: "y \<le> y'" "?Q y' x'" by blast
      show "(\<exists>x'. ?Q y x') \<or> (\<exists>y' x'. y + 1 \<le> y' \<and> ?Q y' x')"
      proof (cases "y' = y")
        case True with a show ?thesis by blast
      next
        case False
        with a have "y + 1 \<le> y'" by simp
        with a show ?thesis by blast
      qed
    next
      assume "(\<exists>x'. ?Q y x') \<or> (\<exists>y' x'. y + 1 \<le> y' \<and> ?Q y' x')"
      then show "\<exists>y' x'. y \<le> y' \<and> ?Q y' x'"
      proof
        assume "\<exists>x'. ?Q y x'"
        then obtain x' where "?Q y x'" ..
        then show ?thesis by (intro exI [of _ y] exI [of _ x']) simp
      next
        assume "\<exists>y' x'. y + 1 \<le> y' \<and> ?Q y' x'"
        then obtain y' x' where "y + 1 \<le> y'" "?Q y' x'" by blast
        then show ?thesis by (intro exI [of _ y'] exI [of _ x']) simp
      qed
    qed
    have step: "fill_rows sz center radius white y pixels i =
        fill_rows sz center radius white (y + 1)
          (fill_row sz center radius white y (wrap32 (wrap32 (y - center) * wrap32 (y - center))) 0 pixels) i"
      using True by (subst fill_rows.simps) (simp add: Let_def)
    have ih: "fill_rows sz center radius white (y + 1)
          (fill_row sz center radius white y (wrap32 (wrap32 (y - center) * wrap32 (y - center))) 0 pixels) i =
        (if \<exists>y' x'. y + 1 \<le> y' \<and> ?Q y' x' then white
         else fill_row sz center radius white y (wrap32 (wrap32 (y - center) * wrap32 (y - center))) 0 pixels i)"
      using "1.IH" [OF True refl refl] by simp
    have row: "fill_row sz center radius white y (wrap32 (wrap32 (y - center) * wrap32 (y - center))) 0 pixels i =
        (if \<exists>x'. ?Q y x' then white else pixels i)"
      using True by (simp add: fill_row_paints)
    show ?thesis
      by (simp only: step ih row split if_nested)
  qed
qed

subsection \<open>The mask is the inscribed disc\<close>

lemma sq_le: "\<bar>a\<bar> \<le> k \<Longrightarrow> a * a \<le> k * (k::int)"
proof -
  assume "\<bar>a\<bar> \<le> k"
  then have "\<bar>a\<bar> * \<bar>a\<bar> \<le> k * k" by (intro mult_mono) auto
  then show ?thesis by simp
qed

lemma size_bound:
  assumes "1 \<le> sz" "sz * sz \<le> INT_MAX"
  shows "sz \<le> (46340::int)"
proof (rule ccontr)
  assume "\<not> sz \<le> 46340"
  then have "46341 \<le> sz" by simp
  then have "46341 * 46341 \<le> sz * sz" by (intro mult_mono) auto
  with assms show False by (simp add: INT_MAX_def)
qed

lemma c_div_2: "0 \<le> sz \<Longrightarrow> c_div sz 2 = sz div 2"
  by (cases "sz = 0") (simp_all add: c_div_def)

lemma offset_inj:
  assumes "0 \<le> x" "x < sz" "0 \<le> x'" "x' < sz" "y' * sz + x' = y * sz + (x::int)"
  shows "x' = x \<and> y' = y"
proof -
  have a: "(y' * sz + x') div sz = y'" using assms(3,4) by simp
  have b: "(y * sz + x) div sz = y" using assms(1,2) by simp
  have "y' = y" using a b assms(5) by (simp only:)
  with assms show ?thesis by simp
qed

lemma in_range_exact:
  assumes sz: "1 \<le> sz" "sz \<le> 46340" and x: "0 \<le> x" "x < sz" and y: "0 \<le> y" "y < sz"
  shows "paints (sz div 2) (wrap32 (sz div 2 * (sz div 2))) x y \<longleftrightarrow>
           (x - sz div 2) * (x - sz div 2) + (y - sz div 2) * (y - sz div 2) \<le> sz div 2 * (sz div 2)"
    and "offset sz x y = y * sz + x"
proof -
  define c where "c = sz div 2"
  have c: "0 \<le> c" "c \<le> 23170" "sz \<le> 2 * c + 1" using sz by (auto simp: c_def)
  have dx: "\<bar>x - c\<bar> \<le> 23170" using x c by linarith
  have dy: "\<bar>y - c\<bar> \<le> 23170" using y c by linarith
  have dx2: "0 \<le> (x - c) * (x - c)" "(x - c) * (x - c) \<le> 536848900"
    using sq_le [OF dx] by simp_all
  have dy2: "0 \<le> (y - c) * (y - c)" "(y - c) * (y - c) \<le> 536848900"
    using sq_le [OF dy] by simp_all
  have cc: "0 \<le> c * c" "c * c \<le> 536848900"
    using sq_le [of c 23170] c by simp_all
  have w1: "wrap32 (x - c) = x - c" using dx by (intro wrap32_id) linarith+
  have w2: "wrap32 (y - c) = y - c" using dy by (intro wrap32_id) linarith+
  have w3: "wrap32 ((x - c) * (x - c)) = (x - c) * (x - c)" using dx2 by (intro wrap32_id) linarith+
  have w4: "wrap32 ((y - c) * (y - c)) = (y - c) * (y - c)" using dy2 by (intro wrap32_id) linarith+
  have w5: "wrap32 ((x - c) * (x - c) + (y - c) * (y - c)) = (x - c) * (x - c) + (y - c) * (y - c)"
    using dx2 dy2 by (intro wrap32_id) linarith+
  have w6: "wrap32 (c * c) = c * c" using cc by (intro wrap32_id) linarith+
  show "paints (sz div 2) (wrap32 (sz div 2 * (sz div 2))) x y \<longleftrightarrow>
           (x - sz div 2) * (x - sz div 2) + (y - sz div 2) * (y - sz div 2) \<le> sz div 2 * (sz div 2)"
    unfolding c_def [symmetric] paints_def by (simp only: w1 w2 w3 w4 w5 w6)
  have ys: "0 \<le> y * sz" "y * sz \<le> 46339 * 46340"
  proof -
    show "0 \<le> y * sz" using y sz by simp
    have "y * sz \<le> 46339 * 46340" using y sz by (intro mult_mono) auto
    then show "y * sz \<le> 46339 * 46340" .
  qed
  have w7: "wrap32 (y * sz) = y * sz" using ys by (intro wrap32_id) linarith+
  have w8: "wrap32 (y * sz + x) = y * sz + x" using ys x sz by (intro wrap32_id) linarith+
  show "offset sz x y = y * sz + x" unfolding offset_def by (simp only: w7 w8)
qed

text \<open>
  Claim C9, as amended. For every size from 1 up to the largest whose pixel count
  \<open>sz * sz\<close> fits a C \<^verbatim>\<open>int\<close>, when \<^verbatim>\<open>SDL_CreateRGBSurface\<close> returns a surface,
  \<^verbatim>\<open>create_circular_shape\<close> returns a surface of \<open>sz\<close> by \<open>sz\<close> pixels in which the
  pixel at column \<open>x\<close> of row \<open>y\<close> is white with alpha 255 exactly when
  \<open>(x - sz div 2)\<^sup>2 + (y - sz div 2)\<^sup>2 \<le> (sz div 2)\<^sup>2\<close>, and is the transparent colour with
  alpha 0 otherwise.
\<close>

theorem create_circular_shape_disc:
  assumes sz: "1 \<le> sz" "sz * sz \<le> INT_MAX" and x: "0 \<le> x" "x < sz" and y: "0 \<le> y" "y < sz"
  shows "\<exists>m. create_circular_shape True sz = Inr m \<and> surf_w m = sz \<and> surf_h m = sz \<and>
           pixel_at m x y =
             (if (x - sz div 2)\<^sup>2 + (y - sz div 2)\<^sup>2 \<le> (sz div 2)\<^sup>2
              then SDL_MapRGBA 255 255 255 255 else SDL_MapRGBA 0 0 0 0) \<and>
           alpha_of (pixel_at m x y) =
             (if (x - sz div 2)\<^sup>2 + (y - sz div 2)\<^sup>2 \<le> (sz div 2)\<^sup>2 then 255 else 0)"
proof -
  have b: "sz \<le> 46340" using size_bound sz by simp
  let ?m = "\<lparr>surf_w = sz, surf_h = sz,
             surf_pixels = fill_rows sz (sz div 2) (wrap32 (sz div 2 * (sz div 2)))
                (SDL_MapRGBA 255 255 255 255) 0 (\<lambda>i. SDL_MapRGBA 0 0 0 0)\<rparr>"
  have cr: "create_circular_shape True sz = Inr ?m"
    using sz by (simp add: create_circular_shape_def c_div_2 Let_def)
  let ?in = "(x - sz div 2) * (x - sz div 2) + (y - sz div 2) * (y - sz div 2) \<le> sz div 2 * (sz div 2)"
  have ex: "(\<exists>y' x'. 0 \<le> y' \<and> y' < sz \<and> 0 \<le> x' \<and> x' < sz \<and>
              paints (sz div 2) (wrap32 (sz div 2 * (sz div 2))) x' y' \<and>
              offset sz x' y' = y * sz + x) \<longleftrightarrow> ?in"
  proof
    assume "\<exists>y' x'. 0 \<le> y' \<and> y' < sz \<and> 0 \<le> x' \<and> x' < sz \<and>
              paints (sz div 2) (wrap32 (sz div 2 * (sz div 2))) x' y' \<and>
              offset sz x' y' = y * sz + x"
    then obtain y' x' where r: "0 \<le> y'" "y' < sz" "0 \<le> x'" "x' < sz"
      and p: "paints (sz div 2) (wrap32 (sz div 2 * (sz div 2))) x' y'"
      and o: "offset sz x' y' = y * sz + x" by blast
    from o have "y' * sz + x' = y * sz + x"
      using in_range_exact(2) [OF sz(1) b r(3,4) r(1,2)] by simp
    then have "x' = x \<and> y' = y" using offset_inj x r by blast
    with p show ?in using in_range_exact(1) [OF sz(1) b x y] by simp
  next
    assume ?in
    then have "paints (sz div 2) (wrap32 (sz div 2 * (sz div 2))) x y"
      using in_range_exact(1) [OF sz(1) b x y] by simp
    moreover have "offset sz x y = y * sz + x" using in_range_exact(2) [OF sz(1) b x y] .
    ultimately show "\<exists>y' x'. 0 \<le> y' \<and> y' < sz \<and> 0 \<le> x' \<and> x' < sz \<and>
              paints (sz div 2) (wrap32 (sz div 2 * (sz div 2))) x' y' \<and>
              offset sz x' y' = y * sz + x"
      using x y by blast
  qed
  have px: "pixel_at ?m x y = (if ?in then SDL_MapRGBA 255 255 255 255 else SDL_MapRGBA 0 0 0 0)"
    unfolding pixel_at_def by (simp only: SDL_Surface.simps fill_rows_char ex)
  have pw: "(x - sz div 2)\<^sup>2 + (y - sz div 2)\<^sup>2 \<le> (sz div 2)\<^sup>2 \<longleftrightarrow> ?in"
    by (simp add: power2_eq_square)
  show ?thesis
    apply (rule exI [of _ ?m])
    apply (simp only: cr pw px)
    apply (simp add: alpha_white alpha_clear)
    done
qed

theorem create_circular_shape_disc_witness:
  "(\<exists>m. create_circular_shape True 100 = Inr m \<and> surf_w m = 100 \<and> surf_h m = 100 \<and>
       pixel_at m 50 0 = SDL_MapRGBA 255 255 255 255 \<and> alpha_of (pixel_at m 50 0) = 255) \<and>
   (\<exists>m. create_circular_shape True 100 = Inr m \<and> surf_w m = 100 \<and> surf_h m = 100 \<and>
       pixel_at m 0 0 = SDL_MapRGBA 0 0 0 0 \<and> alpha_of (pixel_at m 0 0) = 0)"
  using create_circular_shape_disc [of 100 50 0] create_circular_shape_disc [of 100 0 0]
  by (simp add: INT_MAX_def)

lemma create_large:
  "0 \<le> sz \<Longrightarrow> projr (create_circular_shape True sz) =
     \<lparr>surf_w = sz, surf_h = sz,
      surf_pixels = fill_rows sz (sz div 2) (wrap32 (sz div 2 * (sz div 2)))
         (SDL_MapRGBA 255 255 255 255) 0 (\<lambda>i. SDL_MapRGBA 0 0 0 0)\<rparr>"
  by (simp add: create_circular_shape_def c_div_2 Let_def)

lemma paints_outside: "pixel_at (projr (create_circular_shape True 65536)) 0 0 = SDL_MapRGBA 255 255 255 255"
proof -
  have "paints 32768 (wrap32 (32768 * 32768)) 0 0 \<and> offset 65536 0 0 = 0"
    by (simp add: paints_def offset_def wrap32_def)
  then have "\<exists>y' x'. (0::int) \<le> y' \<and> y' < 65536 \<and> (0::int) \<le> x' \<and> x' < 65536 \<and>
      paints 32768 (wrap32 (32768 * 32768)) x' y' \<and> offset 65536 x' y' = 0"
    by (intro exI [of _ 0]) simp
  then show ?thesis
    by (simp add: create_large pixel_at_def fill_rows_char)
qed

lemma misses_inside: "pixel_at (projr (create_circular_shape True 46342)) 23386 46341 = SDL_MapRGBA 0 0 0 0"
proof -
  have ne: "\<not> (\<exists>y' x'. (0::int) \<le> y' \<and> y' < 46342 \<and> (0::int) \<le> x' \<and> x' < 46342 \<and>
      paints c r x' y' \<and> offset 46342 x' y' = 2147558008)" for c r
  proof
    assume "\<exists>y' x'. (0::int) \<le> y' \<and> y' < 46342 \<and> (0::int) \<le> x' \<and> x' < 46342 \<and>
      paints c r x' y' \<and> offset 46342 x' y' = 2147558008"
    then obtain y' x' where "offset 46342 x' y' = 2147558008" by blast
    then show False using wrap32_range [of "wrap32 (y' * 46342) + x'"] by (simp add: offset_def)
  qed
  have "surf_pixels (projr (create_circular_shape True 46342)) 2147558008 = SDL_MapRGBA 0 0 0 0"
    unfolding create_large [of 46342, simplified] SDL_Surface.simps fill_rows_char
    using ne by (rule if_not_P)
  then show ?thesis
    by (simp add: pixel_at_def create_large)
qed

text \<open>
  Claim C9 as stated fails in three ways. When \<^verbatim>\<open>SDL_CreateRGBSurface\<close> fails the function
  returns \<^verbatim>\<open>NULL\<close> and no mask. At size 65536 the sum \<^verbatim>\<open>dx * dx + dy2\<close> for the corner
  pixel is \<open>2\<^sup>3\<^sup>1\<close>, which wraps below the radius: the corner is painted although it lies
  outside the disc. At size 46342 the index \<^verbatim>\<open>y * size + x\<close> of a pixel of the last row
  that lies inside the disc exceeds \<^verbatim>\<open>INT_MAX\<close>: the write goes elsewhere and the pixel
  stays transparent.
\<close>

theorem create_circular_shape_counterexample:
  "create_circular_shape False 100 = Inl ''SDL_CreateRGBSurface failed'' \<and>
   pixel_at (projr (create_circular_shape True 65536)) 0 0 = SDL_MapRGBA 255 255 255 255 \<and>
   \<not> (0 - 65536 div 2)\<^sup>2 + (0 - 65536 div 2)\<^sup>2 \<le> ((65536::int) div 2)\<^sup>2 \<and>
   pixel_at (projr (create_circular_shape True 46342)) 23386 46341 = SDL_MapRGBA 0 0 0 0 \<and>
   (23386 - 46342 div 2)\<^sup>2 + (46341 - 46342 div 2)\<^sup>2 \<le> ((46342::int) div 2)\<^sup>2"
  using paints_outside misses_inside by (simp add: create_circular_shape_def)

subsection \<open>The resize paths as state updates\<close>

lemma replace_shape_eq:
  "replace_shape e s =
     s\<lparr>shape_surface := shape_of (surface_ok e) (window_size s),
       trace := trace s @ shape_calls (surface_ok e) (window_size s)\<rparr>"
  by (cases "surface_ok e")
     (simp_all add: replace_shape_def shape_of_def shape_calls_def create_circular_shape_def Let_def)

lemma resize_window_eq:
  "resize_window e s =
     s\<lparr>window_size := clamp_min (window_size s),
       current_window_size := clamp_min (window_size s),
       shape_surface := shape_of (surface_ok e) (clamp_min (window_size s)),
       trace := trace s @ SDL_SetWindowSize (clamp_min (window_size s)) (clamp_min (window_size s)) #
                shape_calls (surface_ok e) (clamp_min (window_size s)) @
                [Commit_size (clamp_min (window_size s))]\<rparr>"
  by (simp add: resize_window_def replace_shape_eq clamp_min_def Let_def)

lemma check_eq:
  "check_stabilized_resize e s =
     (if pending_resize s \<and> RESIZE_STABILIZE_MS \<le> ticks e - last_resize_time s then
        if actual_w e = actual_h e \<and> actual_w e = pending_size s then
          s\<lparr>window_size := pending_size s, current_window_size := pending_size s,
            shape_surface := shape_of (surface_ok e) (pending_size s),
            pending_resize := False,
            trace := trace s @ [SDL_SetWindowSize (pending_size s) (pending_size s), SDL_GetWindowSize,
                                Commit_size (pending_size s)] @
                     shape_calls (surface_ok e) (pending_size s)\<rparr>
        else
          s\<lparr>pending_resize := False,
            trace := trace s @ [SDL_SetWindowSize (pending_size s) (pending_size s), SDL_GetWindowSize,
               Printf ''Resize failed: requested %dx%d, actual %dx%d''
                 [pending_size s, pending_size s, actual_w e, actual_h e]]\<rparr>
      else s)"
  by (simp add: check_stabilized_resize_def replace_shape_eq Let_def)

subsection \<open>The start-up loops\<close>

lemma map_buffers_all:
  "(\<forall>j. i \<le> j \<and> j < req_count s \<longrightarrow> querybuf_ok b j \<and> mmap_ok b j) \<Longrightarrow>
   map_buffers b i s = Inr (s\<lparr>mapped := mapped s @ [i ..< req_count s]\<rparr>)"
proof (induction b i s rule: map_buffers.induct)
  case (1 b i s)
  show ?case
  proof (cases "i < req_count s")
    case False
    then show ?thesis by (subst map_buffers.simps) simp
  next
    case True
    have ok: "querybuf_ok b i" "mmap_ok b i" using "1.prems" True by auto
    have ih: "map_buffers b (Suc i) (s\<lparr>mapped := mapped s @ [i]\<rparr>) =
        Inr (s\<lparr>mapped := mapped s @ i # [Suc i ..< req_count s]\<rparr>)"
      using "1.IH" [OF True] ok "1.prems" by simp
    show ?thesis
      using ih by (subst map_buffers.simps) (simp add: True ok upt_conv_Cons)
  qed
qed

lemma map_buffers_fails:
  "i \<le> k \<Longrightarrow> k < req_count s \<Longrightarrow>
   (\<forall>j. i \<le> j \<and> j < k \<longrightarrow> querybuf_ok b j \<and> mmap_ok b j) \<Longrightarrow>
   \<not> (querybuf_ok b k \<and> mmap_ok b k) \<Longrightarrow>
   map_buffers b i s =
     Inl (1, s\<lparr>mapped := mapped s @ [i ..< k],
               trace := trace s @ [Perror (if querybuf_ok b k then ''mmap'' else ''VIDIOC_QUERYBUF''),
                                   Free, Close, SDL_Quit]\<rparr>)"
proof (induction b i s rule: map_buffers.induct)
  case (1 b i s)
  have lt: "i < req_count s" using "1.prems" by simp
  show ?case
  proof (cases "i = k")
    case True
    then show ?thesis using "1.prems" lt by (subst map_buffers.simps) auto
  next
    case False
    then have ik: "i < k" using "1.prems" by simp
    then have ok: "querybuf_ok b i" "mmap_ok b i" using "1.prems" by auto
    have ih: "map_buffers b (Suc i) (s\<lparr>mapped := mapped s @ [i]\<rparr>) =
        Inl (1, s\<lparr>mapped := mapped s @ i # [Suc i ..< k],
               trace := trace s @ [Perror (if querybuf_ok b k then ''mmap'' else ''VIDIOC_QUERYBUF''),
                                   Free, Close, SDL_Quit]\<rparr>)"
      using "1.IH" [OF lt] ok ik "1.prems" by simp
    show ?thesis
      using ih by (subst map_buffers.simps) (simp add: lt ok ik upt_conv_Cons)
  qed
qed

lemma queue_buffers_all:
  "(\<forall>j. i \<le> j \<and> j < req_count s \<longrightarrow> qbuf_ok b j) \<Longrightarrow>
   queue_buffers b i s =
     Inr (s\<lparr>queued := queued s @ [i ..< req_count s],
            dequeued := foldl (\<lambda>xs j. remove1 j xs) (dequeued s) [i ..< req_count s]\<rparr>)"
proof (induction b i s rule: queue_buffers.induct)
  case (1 b i s)
  show ?case
  proof (cases "i < req_count s")
    case False
    then show ?thesis by (subst queue_buffers.simps) simp
  next
    case True
    have ok: "qbuf_ok b i" using "1.prems" True by auto
    let ?s' = "s\<lparr>queued := queued s @ [i], dequeued := remove1 i (dequeued s)\<rparr>"
    have q: "VIDIOC_QBUF (qbuf_ok b i) i s = Some ?s'" using ok by (simp add: VIDIOC_QBUF_def)
    have ih: "queue_buffers b (Suc i) ?s' =
        Inr (?s'\<lparr>queued := queued s @ i # [Suc i ..< req_count s],
            dequeued := foldl (\<lambda>xs j. remove1 j xs) (remove1 i (dequeued s)) [Suc i ..< req_count s]\<rparr>)"
      using "1.IH" [OF True q] "1.prems" by simp
    show ?thesis
      using ih by (subst queue_buffers.simps) (simp add: True q upt_conv_Cons)
  qed
qed

subsection \<open>The example state\<close>

lemma started_eq:
  "started n =
     \<lparr>window_size = n, current_window_size = n, shape_surface = shape_of True n,
      dragging = False, drag_start_x = 0, drag_start_y = 0, win_start_x = 0, win_start_y = 0,
      pending_resize = False, pending_size = 0, last_resize_time = 0,
      running = True, req_count = 4, mapped = [0, 1, 2, 3], queued = [0, 1, 2, 3], dequeued = [],
      trace = [Create_circular_shape n, SDL_SetWindowShape n, Commit_size n]\<rparr>"
proof -
  have up: "[0 ..< 4] = [0, 1, 2, 3::nat]" by (simp add: upt_conv_Cons)
  show ?thesis
  by (simp add: started_def startup_def boot_granting_def open_device_def initial_state_def
      allocate_buffers_def map_buffers_all queue_buffers_all up open_window_def
      create_circular_shape_def shape_of_def Let_def)
qed

subsection \<open>Keyboard and wheel steps\<close>

lemma key_step:
  "current_window_size (handle_event e (key_event d) s) = apply_delta (current_window_size s) (delta d)"
  by (cases d) (simp_all add: resize_window_eq apply_delta_def)

lemma wheel_step:
  "current_window_size (handle_event e (wheel_event d n) s) = apply_delta (current_window_size s) (delta d)"
  by (cases d) (simp_all add: wheel_event_def resize_window_eq apply_delta_def)

lemma key_steps:
  "current_window_size (poll_events (map (\<lambda>(e, d, n). (e, key_event d)) xs) s) =
     foldl apply_delta (current_window_size s) (map (\<lambda>(e, d, n). delta d) xs)"
proof (induction xs arbitrary: s)
  case Nil
  show ?case by simp
next
  case (Cons a xs)
  obtain e d n where a: "a = (e, d, n)" by (cases a)
  show ?case using Cons.IH [of "handle_event e (key_event d) s"] by (simp add: a key_step)
qed

lemma wheel_steps:
  "current_window_size (poll_events (map (\<lambda>(e, d, n). (e, wheel_event d n)) xs) s) =
     foldl apply_delta (current_window_size s) (map (\<lambda>(e, d, n). delta d) xs)"
proof (induction xs arbitrary: s)
  case Nil
  show ?case by simp
next
  case (Cons a xs)
  obtain e d n where a: "a = (e, d, n)" by (cases a)
  show ?case using Cons.IH [of "handle_event e (wheel_event d n) s"] by (simp add: a wheel_step)
qed

lemma unclamped_sum:
  "unclamped c ds \<Longrightarrow> foldl apply_delta c ds = c + sum_list ds * SIZE_STEP"
proof (induction ds arbitrary: c)
  case Nil
  show ?case by simp
next
  case (Cons d ds)
  from Cons.prems have r: "MIN_WINDOW_SIZE \<le> c + d * SIZE_STEP" "c + d * SIZE_STEP \<le> INT_MAX"
    and u: "unclamped (c + d * SIZE_STEP) ds" by simp_all
  have "wrap32 (c + d * SIZE_STEP) = c + d * SIZE_STEP"
    using r by (intro wrap32_id) (simp_all add: MIN_WINDOW_SIZE_def INT_MAX_def)
  then have "apply_delta c d = c + d * SIZE_STEP"
    using r by (simp add: apply_delta_def clamp_min_def)
  then show ?case using Cons.IH [OF u] by (simp add: algebra_simps)
qed

lemma unclamped_lower:
  "MIN_WINDOW_SIZE \<le> c \<Longrightarrow> unclamped c ds \<Longrightarrow> MIN_WINDOW_SIZE \<le> c + sum_list ds * SIZE_STEP"
proof (induction ds arbitrary: c)
  case Nil
  then show ?case by simp
next
  case (Cons d ds)
  then show ?case by (fastforce simp: algebra_simps)
qed

text \<open>
  Claim C4, as amended. After any sequence of keyboard steps the size is the result of
  applying one step after the other, each clamped from below at \<open>MIN_WINDOW_SIZE\<close> (and
  computed in 32-bit \<^verbatim>\<open>int\<close>); the same steps asked with the wheel (one step per wheel
  event with non-zero \<open>y\<close>, whatever its magnitude) give the same size; and when no step
  of the sequence is clamped or overflows, the size is
  \<open>max MIN_WINDOW_SIZE (initial + sum deltas * SIZE_STEP)\<close>.
\<close>

theorem resize_steps:
  "current_window_size (poll_events (map (\<lambda>(e, d, n). (e, key_event d)) xs) s) =
     foldl apply_delta (current_window_size s) (map (\<lambda>(e, d, n). delta d) xs) \<and>
   current_window_size (poll_events (map (\<lambda>(e, d, n). (e, wheel_event d n)) xs) s) =
     current_window_size (poll_events (map (\<lambda>(e, d, n). (e, key_event d)) xs) s) \<and>
   (MIN_WINDOW_SIZE \<le> current_window_size s \<and>
    unclamped (current_window_size s) (map (\<lambda>(e, d, n). delta d) xs) \<longrightarrow>
      current_window_size (poll_events (map (\<lambda>(e, d, n). (e, key_event d)) xs) s) =
        max MIN_WINDOW_SIZE
          (current_window_size s + sum_list (map (\<lambda>(e, d, n). delta d) xs) * SIZE_STEP))"
proof (intro conjI impI)
  show "current_window_size (poll_events (map (\<lambda>(e, d, n). (e, key_event d)) xs) s) =
           foldl apply_delta (current_window_size s) (map (\<lambda>(e, d, n). delta d) xs)"
    by (rule key_steps)
  show "current_window_size (poll_events (map (\<lambda>(e, d, n). (e, wheel_event d n)) xs) s) =
           current_window_size (poll_events (map (\<lambda>(e, d, n). (e, key_event d)) xs) s)"
    by (simp only: key_steps wheel_steps)
  assume "MIN_WINDOW_SIZE \<le> current_window_size s \<and>
    unclamped (current_window_size s) (map (\<lambda>(e, d, n). delta d) xs)"
  then have a: "MIN_WINDOW_SIZE \<le> current_window_size s"
    "unclamped (current_window_size s) (map (\<lambda>(e, d, n). delta d) xs)" by simp_all
  show "current_window_size (poll_events (map (\<lambda>(e, d, n). (e, key_event d)) xs) s) =
             max MIN_WINDOW_SIZE
               (current_window_size s + sum_list (map (\<lambda>(e, d, n). delta d) xs) * SIZE_STEP)"
    using unclamped_sum [OF a(2)] unclamped_lower [OF a]
    by (simp add: key_steps)
qed

theorem resize_steps_witness:
  "MIN_WINDOW_SIZE \<le> current_window_size (started 100) \<and>
   unclamped (current_window_size (started 100)) [- 1, - 1, 1] \<and>
   current_window_size
     (poll_events [(env_at 0 100 100, SDL_KEYDOWN SDLK_MINUS), (env_at 0 90 90, SDL_KEYDOWN SDLK_MINUS),
                   (env_at 0 80 80, SDL_KEYDOWN SDLK_PLUS)] (started 100)) = 90 \<and>
   current_window_size
     (poll_events [(env_at 0 100 100, SDL_MOUSEWHEEL (- 1)), (env_at 0 90 90, SDL_MOUSEWHEEL (- 1)),
                   (env_at 0 80 80, SDL_MOUSEWHEEL 1)] (started 100)) = 90"
  using resize_steps [of "[(env_at 0 100 100, Down, 0), (env_at 0 90 90, Down, 0), (env_at 0 80 80, Up, 0)]"
      "started 100"]
  by (simp del: poll_events.simps add: started_eq wheel_event_def MIN_WINDOW_SIZE_def SIZE_STEP_def INT_MAX_def
      apply_delta_def clamp_min_def wrap32_def)

text \<open>
  Claim C4 as stated fails: from 100, six presses of minus and one of plus end at 60 (the
  sixth minus is clamped at 50), while the closed form gives \<open>max 50 (100 - 50) = 50\<close>.
\<close>

theorem resize_steps_counterexample:
  "current_window_size
     (poll_events [(env_at 0 100 100, SDL_KEYDOWN SDLK_MINUS), (env_at 0 90 90, SDL_KEYDOWN SDLK_MINUS),
                   (env_at 0 80 80, SDL_KEYDOWN SDLK_MINUS), (env_at 0 70 70, SDL_KEYDOWN SDLK_MINUS),
                   (env_at 0 60 60, SDL_KEYDOWN SDLK_MINUS), (env_at 0 50 50, SDL_KEYDOWN SDLK_MINUS),
                   (env_at 0 50 50, SDL_KEYDOWN SDLK_PLUS)] (started 100)) = 60 \<and>
   max MIN_WINDOW_SIZE (current_window_size (started 100) + sum_list [- 1, - 1, - 1, - 1, - 1, - 1, 1] * SIZE_STEP) = 50"
  using key_steps [of "[(env_at 0 100 100, Down, 0), (env_at 0 90 90, Down, 0), (env_at 0 80 80, Down, 0),
      (env_at 0 70 70, Down, 0), (env_at 0 60 60, Down, 0), (env_at 0 50 50, Down, 0), (env_at 0 50 50, Up, 0)]"
      "started 100"]
  by (simp del: poll_events.simps add: started_eq apply_delta_def clamp_min_def wrap32_def MIN_WINDOW_SIZE_def SIZE_STEP_def)

subsection \<open>What a successful start-up leaves\<close>

lemma map_buffers_Inr:
  "map_buffers b i s = Inr s' \<Longrightarrow> s' = s\<lparr>mapped := mapped s @ [i ..< req_count s]\<rparr>"
proof (induction b i s rule: map_buffers.induct)
  case (1 b i s)
  show ?case
  proof (cases "i < req_count s")
    case False
    then show ?thesis using "1.prems" by (subst (asm) map_buffers.simps) simp
  next
    case True
    have ok: "querybuf_ok b i" "mmap_ok b i"
      using "1.prems" True by (subst (asm) map_buffers.simps; simp split: if_splits)+
    have "map_buffers b (i + 1) (s\<lparr>mapped := mapped s @ [i]\<rparr>) = Inr s'"
      using "1.prems" True ok by (subst (asm) map_buffers.simps) simp
    from "1.IH" [OF True _ _ this] ok show ?thesis using True by (simp add: upt_conv_Cons)
  qed
qed

lemma queue_buffers_Inr:
  "queue_buffers b i s = Inr s' \<Longrightarrow>
     s' = s\<lparr>queued := queued s @ [i ..< req_count s],
            dequeued := foldl (\<lambda>xs j. remove1 j xs) (dequeued s) [i ..< req_count s]\<rparr>"
proof (induction b i s rule: queue_buffers.induct)
  case (1 b i s)
  show ?case
  proof (cases "i < req_count s")
    case False
    then show ?thesis using "1.prems" by (subst (asm) queue_buffers.simps) simp
  next
    case True
    let ?s' = "s\<lparr>queued := queued s @ [i], dequeued := remove1 i (dequeued s)\<rparr>"
    have ok: "qbuf_ok b i"
      using "1.prems" True
      by (subst (asm) queue_buffers.simps) (simp add: VIDIOC_QBUF_def split: if_splits)
    then have q: "VIDIOC_QBUF (qbuf_ok b i) i s = Some ?s'" by (simp add: VIDIOC_QBUF_def)
    have "queue_buffers b (i + 1) ?s' = Inr s'"
      using "1.prems" True q by (subst (asm) queue_buffers.simps) simp
    from "1.IH" [OF True q this] show ?thesis using True by (simp add: upt_conv_Cons)
  qed
qed

lemma remove_fresh: "foldl (\<lambda>xs j. remove1 j xs) [] js = []"
  by (induction js) simp_all

lemma startup_Inr:
  assumes "startup b wsize = Inr s"
  shows "\<exists>n. reqbufs_r b = Some n \<and>
           s = (initial_state wsize)\<lparr>current_window_size := wsize,
                 shape_surface := shape_of True wsize, req_count := n,
                 mapped := [0 ..< n], queued := [0 ..< n],
                 trace := [Create_circular_shape wsize, SDL_SetWindowShape wsize, Commit_size wsize]\<rparr>"
proof -
  from assms obtain s1 s2 where
    1: "open_device b (initial_state wsize) = Inr s1" and
    2: "allocate_buffers b s1 = Inr s2" and
    3: "open_window b s2 = Inr s"
    by (auto simp: startup_def split: sum.splits)
  from 1 have s1: "s1 = initial_state wsize"
    by (simp add: open_device_def split: if_splits)
  from 2 obtain n sm where n: "reqbufs_r b = Some n"
    and m: "map_buffers b 0 (s1\<lparr>req_count := n\<rparr>) = Inr sm"
    and q: "queue_buffers b 0 sm = Inr s2"
    by (auto simp: allocate_buffers_def split: option.splits sum.splits)
  have sm: "sm = s1\<lparr>req_count := n, mapped := [0 ..< n]\<rparr>"
    using map_buffers_Inr [OF m] by (simp add: s1 initial_state_def)
  have s2: "s2 = s1\<lparr>req_count := n, mapped := [0 ..< n], queued := [0 ..< n]\<rparr>"
    using queue_buffers_Inr [OF q] by (simp add: sm s1 initial_state_def remove_fresh)
  have ok: "shape_ok b"
    using 3 by (auto simp: open_window_def create_circular_shape_def split: if_splits)
  from 3 show ?thesis
    by (intro exI [of _ n])
       (simp add: n s2 s1 ok open_window_def create_circular_shape_def shape_of_def Let_def
          initial_state_def split: if_splits)
qed

subsection \<open>The floor of the window size\<close>

lemma committed_append [simp]: "committed_sizes (xs @ ys) = committed_sizes xs @ committed_sizes ys"
  by (simp add: committed_sizes_def)

lemma committed_Nil [simp]: "committed_sizes [] = []"
  by (simp add: committed_sizes_def)

lemma committed_Cons [simp]:
  "committed_sizes (ef # tr) = (case ef of Commit_size v \<Rightarrow> [v] | _ \<Rightarrow> []) @ committed_sizes tr"
  by (simp add: committed_sizes_def)

lemma committed_shape_calls [simp]: "committed_sizes (shape_calls ok n) = []"
  by (simp add: shape_calls_def)

lemma clamp_min_ge: "MIN_WINDOW_SIZE \<le> clamp_min v"
  by (simp add: clamp_min_def)

lemma size_inv_resize_window: "size_inv s \<Longrightarrow> size_inv (resize_window e (s\<lparr>window_size := v\<rparr>))"
  by (simp add: size_inv_def resize_window_eq clamp_min_ge)

lemma size_inv_resize_window': "size_inv s \<Longrightarrow> size_inv (resize_window e s)"
  by (simp add: size_inv_def resize_window_eq clamp_min_ge)

lemma size_inv_handle_event: "size_inv s \<Longrightarrow> size_inv (handle_event e ev s)"
proof (cases ev)
  case (SDL_KEYDOWN key)
  assume "size_inv s"
  then show ?thesis
    by (cases key) (simp_all add: SDL_KEYDOWN size_inv_resize_window, simp add: size_inv_def)
next
  case (SDL_MOUSEWHEEL y)
  assume "size_inv s"
  then show ?thesis
    by (simp add: SDL_MOUSEWHEEL size_inv_resize_window size_inv_resize_window')
qed (auto simp: size_inv_def Let_def)

lemma size_inv_poll_events: "size_inv s \<Longrightarrow> size_inv (poll_events evs s)"
  by (induction evs arbitrary: s) (auto simp: size_inv_handle_event)

lemma size_inv_check: "size_inv s \<Longrightarrow> size_inv (check_stabilized_resize e s)"
  by (simp add: check_eq size_inv_def)

lemma size_inv_render: "size_inv s \<Longrightarrow> size_inv (render s)"
  by (simp add: render_def size_inv_def)

lemma size_inv_capture: "size_inv s \<Longrightarrow> size_inv (capture_cycle c s)"
  by (simp add: capture_cycle_def VIDIOC_DQBUF_def VIDIOC_QBUF_def size_inv_def Let_def
      split: option.splits)

lemma size_inv_loop_body: "size_inv s \<Longrightarrow> size_inv (loop_body it s)"
  by (simp add: loop_body_def size_inv_capture size_inv_render size_inv_check size_inv_poll_events)

lemma size_inv_main_loop: "size_inv s \<Longrightarrow> size_inv (main_loop its s)"
  by (induction its arbitrary: s) (auto simp: size_inv_loop_body)

lemma parse_loop_size:
  "parse_loop atoi args acc = Inr acc' \<Longrightarrow> MIN_SIZE \<le> fst (snd acc) \<Longrightarrow> MIN_SIZE \<le> fst (snd acc')"
proof (induction atoi args acc rule: parse_loop.induct)
  case (1 atoi acc)
  then show ?case by simp
next
  case (2 atoi a rest always_on_top wsize video_device)
  show ?case
  proof (cases "a = ''-t''")
    case True
    with "2.prems" "2.IH"(1) show ?thesis by simp
  next
    case nt: False
    show ?thesis
    proof (cases "a = ''-s''")
      case False
      with nt "2.prems" "2.IH"(3) show ?thesis by simp
    next
      case True
      show ?thesis
      proof (cases rest)
        case Nil
        with nt True "2.prems" show ?thesis by simp
      next
        case (Cons v rest')
        show ?thesis
        proof (cases "atoi v < MIN_SIZE")
          case True
          with nt \<open>a = ''-s''\<close> Cons "2.prems" show ?thesis by simp
        next
          case False
          with nt \<open>a = ''-s''\<close> Cons "2.prems" "2.IH"(2) [OF nt \<open>a = ''-s''\<close> Cons False]
          show ?thesis by simp
        qed
      qed
    qed
  qed
qed

lemma parse_args_size:
  assumes "parse_args atoi args = Inr (t, w, dev)"
  shows "MIN_SIZE \<le> w"
proof -
  from assms obtain d where "parse_loop atoi args (False, DEFAULT_SIZE, None) = Inr (t, w, d)"
    by (simp add: parse_args_def split: if_splits sum.splits prod.splits option.splits)
  from parse_loop_size [OF this] show ?thesis by (simp add: DEFAULT_SIZE_def MIN_SIZE_def)
qed

lemma startup_size_inv:
  assumes "startup b wsize = Inr s" "MIN_WINDOW_SIZE \<le> wsize"
  shows "size_inv s"
proof -
  from startup_Inr [OF assms(1)] obtain n where
    "s = (initial_state wsize)\<lparr>current_window_size := wsize,
                 shape_surface := shape_of True wsize, req_count := n,
                 mapped := [0 ..< n], queued := [0 ..< n],
                 trace := [Create_circular_shape wsize, SDL_SetWindowShape wsize, Commit_size wsize]\<rparr>"
    by blast
  then show ?thesis using assms(2) by (simp add: size_inv_def initial_state_def)
qed

lemma minus_size:
  "MIN_WINDOW_SIZE \<le> c \<Longrightarrow> c \<le> INT_MAX \<Longrightarrow>
     clamp_min (wrap32 (c - SIZE_STEP)) = max MIN_WINDOW_SIZE (c - SIZE_STEP)"
proof -
  assume a: "MIN_WINDOW_SIZE \<le> c" "c \<le> INT_MAX"
  have "wrap32 (c - SIZE_STEP) = c - SIZE_STEP"
    using a by (intro wrap32_id) (simp_all add: MIN_WINDOW_SIZE_def INT_MAX_def SIZE_STEP_def)
  then show ?thesis by (simp add: clamp_min_def max_def)
qed

text \<open>
  Claim C10. \<open>MIN_WINDOW_SIZE\<close> is 50 and the minimum of the \<^verbatim>\<open>-s\<close> value is 100: a
  command line that is accepted gives a size of at least 100. From any accepted start-up,
  after any number of loop iterations with any events and answers, the current size is at
  least 50 and so is every size that was committed. A press of minus and a wheel-down
  event shrink the size by one step but not below 50, and a window-manager resize to any
  \<open>n \<ge> 50\<close> that stabilises and is read back as \<open>n\<close> by \<open>n\<close> makes \<open>n\<close> the current
  size: sizes from 50 on are reached although they are below 100.
\<close>

theorem size_floor:
  "MIN_WINDOW_SIZE = 50 \<and> MIN_SIZE = 100 \<and>
   (parse_args atoi args = Inr (on_top, wsize, dev) \<longrightarrow> MIN_SIZE \<le> wsize) \<and>
   (parse_args atoi args = Inr (on_top, wsize, dev) \<and> startup b wsize = Inr s0 \<longrightarrow>
      MIN_WINDOW_SIZE \<le> current_window_size (main_loop its s0) \<and>
      list_all (\<lambda>v. MIN_WINDOW_SIZE \<le> v) (committed_sizes (trace (main_loop its s0)))) \<and>
   (MIN_WINDOW_SIZE \<le> current_window_size s \<and> current_window_size s \<le> INT_MAX \<longrightarrow>
      current_window_size (handle_event e (SDL_KEYDOWN SDLK_MINUS) s) =
        max MIN_WINDOW_SIZE (current_window_size s - SIZE_STEP) \<and>
      current_window_size (handle_event e (SDL_MOUSEWHEEL (- 1)) s) =
        max MIN_WINDOW_SIZE (current_window_size s - SIZE_STEP)) \<and>
   (MIN_WINDOW_SIZE \<le> n \<and> n \<noteq> current_window_size s \<and>
    RESIZE_STABILIZE_MS \<le> ticks e' - ticks e \<and> actual_w e' = n \<and> actual_h e' = n \<longrightarrow>
      current_window_size
        (check_stabilized_resize e'
           (handle_event e (SDL_WINDOWEVENT SDL_WINDOWEVENT_SIZE_CHANGED n n) s)) = n)"
proof (intro conjI impI)
  show "MIN_WINDOW_SIZE = 50" by (simp add: MIN_WINDOW_SIZE_def)
  show "MIN_SIZE = 100" by (simp add: MIN_SIZE_def)
next
  assume "parse_args atoi args = Inr (on_top, wsize, dev)"
  then show "MIN_SIZE \<le> wsize" by (rule parse_args_size)
next
  assume a: "parse_args atoi args = Inr (on_top, wsize, dev) \<and> startup b wsize = Inr s0"
  then have "MIN_SIZE \<le> wsize" using parse_args_size by blast
  then have "MIN_WINDOW_SIZE \<le> wsize" by (simp add: MIN_SIZE_def MIN_WINDOW_SIZE_def)
  with a have "size_inv s0" using startup_size_inv by blast
  then have i: "size_inv (main_loop its s0)" by (rule size_inv_main_loop)
  from i show "MIN_WINDOW_SIZE \<le> current_window_size (main_loop its s0)"
    by (simp add: size_inv_def)
  from i show "list_all (\<lambda>v. MIN_WINDOW_SIZE \<le> v) (committed_sizes (trace (main_loop its s0)))"
    by (simp add: size_inv_def)
next
  assume a: "MIN_WINDOW_SIZE \<le> current_window_size s \<and> current_window_size s \<le> INT_MAX"
  show "current_window_size (handle_event e (SDL_KEYDOWN SDLK_MINUS) s) =
        max MIN_WINDOW_SIZE (current_window_size s - SIZE_STEP)"
    using a by (simp add: resize_window_eq minus_size)
  show "current_window_size (handle_event e (SDL_MOUSEWHEEL (- 1)) s) =
        max MIN_WINDOW_SIZE (current_window_size s - SIZE_STEP)"
    using a by (simp add: resize_window_eq minus_size)
next
  assume "MIN_WINDOW_SIZE \<le> n \<and> n \<noteq> current_window_size s \<and>
    RESIZE_STABILIZE_MS \<le> ticks e' - ticks e \<and> actual_w e' = n \<and> actual_h e' = n"
  then show "current_window_size
        (check_stabilized_resize e'
           (handle_event e (SDL_WINDOWEVENT SDL_WINDOWEVENT_SIZE_CHANGED n n) s)) = n"
    by (simp add: check_eq)
qed

lemma startup_started: "startup (boot_granting 4) n = Inr (started n)"
proof -
  have up: "[0 ..< 4] = [0, 1, 2, 3::nat]" by (simp add: upt_conv_Cons)
  show ?thesis
    unfolding started_eq
    by (simp add: startup_def boot_granting_def open_device_def initial_state_def
      allocate_buffers_def map_buffers_all queue_buffers_all up open_window_def
      create_circular_shape_def shape_of_def Let_def)
qed

theorem size_floor_witness:
  "parse_args (\<lambda>a. 100) [''-s'', ''100'', ''/dev/video0''] = Inr (False, 100, ''/dev/video0'') \<and>
   startup (boot_granting 4) 100 = Inr (started 100) \<and>
   MIN_WINDOW_SIZE \<le> current_window_size
     (main_loop [\<lparr>events = [(env_at 0 100 100, SDL_KEYDOWN SDLK_MINUS)], check_env = env_at 5 90 90,
                  capture = \<lparr>select_r = 0, dqbuf_r = None, qbuf_r = True\<rparr>\<rparr>] (started 100)) \<and>
   current_window_size
     (handle_event (env_at 0 60 60) (SDL_KEYDOWN SDLK_MINUS)
        (poll_events [(env_at 0 100 100, SDL_MOUSEWHEEL (- 1)), (env_at 0 90 90, SDL_MOUSEWHEEL (- 1)),
                      (env_at 0 80 80, SDL_MOUSEWHEEL (- 1)), (env_at 0 70 70, SDL_MOUSEWHEEL (- 1))]
           (started 100))) = 50 \<and>
   current_window_size
     (check_stabilized_resize (env_at 100 75 75)
        (handle_event (env_at 0 60 60) (SDL_WINDOWEVENT SDL_WINDOWEVENT_SIZE_CHANGED 75 75)
           (poll_events [(env_at 0 100 100, SDL_MOUSEWHEEL (- 1)), (env_at 0 90 90, SDL_MOUSEWHEEL (- 1)),
                      (env_at 0 80 80, SDL_MOUSEWHEEL (- 1)), (env_at 0 70 70, SDL_MOUSEWHEEL (- 1))]
           (started 100)))) = 75"
  using size_floor [of "\<lambda>a. 100" "[''-s'', ''100'', ''/dev/video0'']" False 100 "''/dev/video0''"
      "boot_granting 4" "started 100"
      "[\<lparr>events = [(env_at 0 100 100, SDL_KEYDOWN SDLK_MINUS)], check_env = env_at 5 90 90,
                  capture = \<lparr>select_r = 0, dqbuf_r = None, qbuf_r = True\<rparr>\<rparr>]"
      "poll_events [(env_at 0 100 100, SDL_MOUSEWHEEL (- 1)), (env_at 0 90 90, SDL_MOUSEWHEEL (- 1)),
                      (env_at 0 80 80, SDL_MOUSEWHEEL (- 1)), (env_at 0 70 70, SDL_MOUSEWHEEL (- 1))]
           (started 100)"
      "env_at 0 60 60" 75 "env_at 100 75 75"]
  by (simp add: startup_started parse_args_def MIN_SIZE_def DEFAULT_SIZE_def started_eq
      resize_window_eq clamp_min_def wrap32_def MIN_WINDOW_SIZE_def SIZE_STEP_def INT_MAX_def
      env_at_def RESIZE_STABILIZE_MS_def)

subsection \<open>The order of the calls of a resize\<close>

lemma resize_input_eq:
  "resize_input ev \<Longrightarrow>
   handle_event e ev s =
     s\<lparr>window_size := target_size s ev, current_window_size := target_size s ev,
       shape_surface := shape_of (surface_ok e) (target_size s ev),
       trace := trace s @ SDL_SetWindowSize (target_size s ev) (target_size s ev) #
                shape_calls (surface_ok e) (target_size s ev) @ [Commit_size (target_size s ev)]\<rparr>"
proof (cases ev)
  case (SDL_KEYDOWN key)
  assume "resize_input ev"
  then show ?thesis by (cases key) (simp_all add: SDL_KEYDOWN resize_window_eq)
next
  case (SDL_MOUSEWHEEL y)
  then show ?thesis by (simp add: resize_window_eq)
qed simp_all

text \<open>
  Claim C3, as amended. A keyboard or wheel resize to size \<open>n\<close> calls, in this order:
  \<^verbatim>\<open>SDL_SetWindowSize\<close>, \<^verbatim>\<open>SDL_FreeSurface\<close> on the old mask,
  \<^verbatim>\<open>create_circular_shape(n)\<close>, \<^verbatim>\<open>SDL_SetWindowShape\<close> if the mask was created (else only
  the diagnostic was printed), and then commits \<^verbatim>\<open>current_window_size = n\<close>. A stabilised
  window-manager resize to \<open>p\<close> that is read back as \<open>p\<close> by \<open>p\<close> commits
  \<^verbatim>\<open>current_window_size = p\<close> first, then frees the old mask, creates the new one and
  applies it.
\<close>

theorem resize_order:
  "(resize_input ev \<longrightarrow>
      trace (handle_event e ev s) =
        trace s @ [SDL_SetWindowSize (target_size s ev) (target_size s ev), SDL_FreeSurface,
                   Create_circular_shape (target_size s ev),
                   if surface_ok e then SDL_SetWindowShape (target_size s ev)
                   else Fprintf_stderr ''SDL_CreateRGBSurface failed'',
                   Commit_size (target_size s ev)] \<and>
      current_window_size (handle_event e ev s) = target_size s ev) \<and>
   (pending_resize s \<and> RESIZE_STABILIZE_MS \<le> ticks e - last_resize_time s \<and>
    actual_w e = actual_h e \<and> actual_w e = pending_size s \<longrightarrow>
      trace (check_stabilized_resize e s) =
        trace s @ [SDL_SetWindowSize (pending_size s) (pending_size s), SDL_GetWindowSize,
                   Commit_size (pending_size s), SDL_FreeSurface,
                   Create_circular_shape (pending_size s),
                   if surface_ok e then SDL_SetWindowShape (pending_size s)
                   else Fprintf_stderr ''SDL_CreateRGBSurface failed''] \<and>
      current_window_size (check_stabilized_resize e s) = pending_size s)"
proof (intro conjI impI)
  assume r: "resize_input ev"
  show "trace (handle_event e ev s) =
        trace s @ [SDL_SetWindowSize (target_size s ev) (target_size s ev), SDL_FreeSurface,
                   Create_circular_shape (target_size s ev),
                   if surface_ok e then SDL_SetWindowShape (target_size s ev)
                   else Fprintf_stderr ''SDL_CreateRGBSurface failed'',
                   Commit_size (target_size s ev)]"
    by (simp add: resize_input_eq [OF r] shape_calls_def)
  show "current_window_size (handle_event e ev s) = target_size s ev"
    by (simp add: resize_input_eq [OF r])
next
  assume p: "pending_resize s \<and> RESIZE_STABILIZE_MS \<le> ticks e - last_resize_time s \<and>
    actual_w e = actual_h e \<and> actual_w e = pending_size s"
  show "trace (check_stabilized_resize e s) =
        trace s @ [SDL_SetWindowSize (pending_size s) (pending_size s), SDL_GetWindowSize,
                   Commit_size (pending_size s), SDL_FreeSurface,
                   Create_circular_shape (pending_size s),
                   if surface_ok e then SDL_SetWindowShape (pending_size s)
                   else Fprintf_stderr ''SDL_CreateRGBSurface failed'']"
    using p by (simp add: check_eq shape_calls_def)
  show "current_window_size (check_stabilized_resize e s) = pending_size s"
    using p by (simp add: check_eq)
qed

theorem resize_order_witness:
  "resize_input (SDL_KEYDOWN SDLK_PLUS) \<and>
   pending_resize (handle_event (env_at 0 200 200)
      (SDL_WINDOWEVENT SDL_WINDOWEVENT_SIZE_CHANGED 200 200) (started 100)) \<and>
   trace (handle_event (env_at 100 200 200) (SDL_KEYDOWN SDLK_PLUS)
      (handle_event (env_at 0 200 200)
         (SDL_WINDOWEVENT SDL_WINDOWEVENT_SIZE_CHANGED 200 200) (started 100))) =
     trace (started 100) @
       [SDL_SetWindowSize 110 110, SDL_FreeSurface, Create_circular_shape 110,
        SDL_SetWindowShape 110, Commit_size 110] \<and>
   trace (check_stabilized_resize (env_at 100 200 200)
      (handle_event (env_at 0 200 200)
         (SDL_WINDOWEVENT SDL_WINDOWEVENT_SIZE_CHANGED 200 200) (started 100))) =
     trace (started 100) @
       [SDL_SetWindowSize 200 200, SDL_GetWindowSize, Commit_size 200, SDL_FreeSurface,
        Create_circular_shape 200, SDL_SetWindowShape 200]"
  using resize_order [of "SDL_KEYDOWN SDLK_PLUS" "env_at 100 200 200"
      "handle_event (env_at 0 200 200)
         (SDL_WINDOWEVENT SDL_WINDOWEVENT_SIZE_CHANGED 200 200) (started 100)"]
  by (simp add: started_eq env_at_def clamp_min_def wrap32_def MIN_WINDOW_SIZE_def SIZE_STEP_def
      RESIZE_STABILIZE_MS_def)

text \<open>
  Claim C3 as stated fails. After a press of plus at size 100 the old mask is freed before
  the new one is even created, so not after the new one is applied; and on the
  window-manager path the size 200 is committed before the mask for 200 is created.
\<close>

theorem resize_order_counterexample:
  "trace (handle_event (env_at 0 100 100) (SDL_KEYDOWN SDLK_PLUS) (started 100)) =
     [Create_circular_shape 100, SDL_SetWindowShape 100, Commit_size 100,
      SDL_SetWindowSize 110 110, SDL_FreeSurface, Create_circular_shape 110,
      SDL_SetWindowShape 110, Commit_size 110] \<and>
   occurs_before SDL_FreeSurface (Create_circular_shape 110)
     (trace (handle_event (env_at 0 100 100) (SDL_KEYDOWN SDLK_PLUS) (started 100))) \<and>
   \<not> occurs_before (SDL_SetWindowShape 110) SDL_FreeSurface
     (trace (handle_event (env_at 0 100 100) (SDL_KEYDOWN SDLK_PLUS) (started 100))) \<and>
   trace (check_stabilized_resize (env_at 100 200 200)
      (handle_event (env_at 0 200 200)
         (SDL_WINDOWEVENT SDL_WINDOWEVENT_SIZE_CHANGED 200 200) (started 100))) =
     [Create_circular_shape 100, SDL_SetWindowShape 100, Commit_size 100,
      SDL_SetWindowSize 200 200, SDL_GetWindowSize, Commit_size 200, SDL_FreeSurface,
      Create_circular_shape 200, SDL_SetWindowShape 200] \<and>
   occurs_before (Commit_size 200) (Create_circular_shape 200)
     (trace (check_stabilized_resize (env_at 100 200 200)
        (handle_event (env_at 0 200 200)
           (SDL_WINDOWEVENT SDL_WINDOWEVENT_SIZE_CHANGED 200 200) (started 100)))) \<and>
   \<not> occurs_before (SDL_SetWindowShape 200) (Commit_size 200)
     (trace (check_stabilized_resize (env_at 100 200 200)
        (handle_event (env_at 0 200 200)
           (SDL_WINDOWEVENT SDL_WINDOWEVENT_SIZE_CHANGED 200 200) (started 100))))"
  by (simp add: started_eq env_at_def resize_window_eq check_eq shape_calls_def clamp_min_def
      wrap32_def MIN_WINDOW_SIZE_def SIZE_STEP_def RESIZE_STABILIZE_MS_def)

subsection \<open>A resize to the current size\<close>

text \<open>
  Claim C7, as amended. A keyboard or wheel resize whose target equals the current size
  leaves \<^verbatim>\<open>current_window_size\<close> as it was and ends with a mask of the same size, but it
  is not a no-op: the window is resized (\<^verbatim>\<open>SDL_SetWindowSize\<close>), the old mask is freed and
  a new one is created and applied. Only a window-manager resize whose candidate equals
  the current size changes nothing at all.
\<close>

theorem same_size_resize:
  "(resize_input ev \<and> target_size s ev = current_window_size s \<longrightarrow>
      current_window_size (handle_event e ev s) = current_window_size s \<and>
      shape_surface (handle_event e ev s) = shape_of (surface_ok e) (current_window_size s) \<and>
      trace (handle_event e ev s) =
        trace s @ [SDL_SetWindowSize (current_window_size s) (current_window_size s),
                   SDL_FreeSurface, Create_circular_shape (current_window_size s),
                   if surface_ok e then SDL_SetWindowShape (current_window_size s)
                   else Fprintf_stderr ''SDL_CreateRGBSurface failed'',
                   Commit_size (current_window_size s)]) \<and>
   ((if data1 < data2 then data1 else data2) = current_window_size s \<longrightarrow>
      handle_event e (SDL_WINDOWEVENT SDL_WINDOWEVENT_SIZE_CHANGED data1 data2) s = s)"
proof (intro conjI impI)
  assume a: "resize_input ev \<and> target_size s ev = current_window_size s"
  then have r: "resize_input ev" and t: "target_size s ev = current_window_size s" by simp_all
  show "current_window_size (handle_event e ev s) = current_window_size s"
    by (simp add: resize_input_eq [OF r] t)
  show "shape_surface (handle_event e ev s) = shape_of (surface_ok e) (current_window_size s)"
    by (simp add: resize_input_eq [OF r] t)
  show "trace (handle_event e ev s) =
        trace s @ [SDL_SetWindowSize (current_window_size s) (current_window_size s),
                   SDL_FreeSurface, Create_circular_shape (current_window_size s),
                   if surface_ok e then SDL_SetWindowShape (current_window_size s)
                   else Fprintf_stderr ''SDL_CreateRGBSurface failed'',
                   Commit_size (current_window_size s)]"
    by (simp add: resize_input_eq [OF r] t shape_calls_def)
next
  assume "(if data1 < data2 then data1 else data2) = current_window_size s"
  then show "handle_event e (SDL_WINDOWEVENT SDL_WINDOWEVENT_SIZE_CHANGED data1 data2) s = s"
    by simp
qed

lemma shrunk_eq:
  "shrunk =
   (started 50)\<lparr>trace :=
      [Create_circular_shape 100, SDL_SetWindowShape 100, Commit_size 100,
       SDL_SetWindowSize 90 90, SDL_FreeSurface, Create_circular_shape 90, SDL_SetWindowShape 90, Commit_size 90,
       SDL_SetWindowSize 80 80, SDL_FreeSurface, Create_circular_shape 80, SDL_SetWindowShape 80, Commit_size 80,
       SDL_SetWindowSize 70 70, SDL_FreeSurface, Create_circular_shape 70, SDL_SetWindowShape 70, Commit_size 70,
       SDL_SetWindowSize 60 60, SDL_FreeSurface, Create_circular_shape 60, SDL_SetWindowShape 60, Commit_size 60,
       SDL_SetWindowSize 50 50, SDL_FreeSurface, Create_circular_shape 50, SDL_SetWindowShape 50, Commit_size 50]\<rparr>"
  by (simp add: shrunk_def started_eq env_at_def resize_window_eq shape_calls_def clamp_min_def
      wrap32_def MIN_WINDOW_SIZE_def SIZE_STEP_def)

theorem same_size_resize_witness:
  "resize_input (SDL_KEYDOWN SDLK_MINUS) \<and>
   target_size shrunk (SDL_KEYDOWN SDLK_MINUS) = current_window_size shrunk \<and>
   current_window_size (handle_event (env_at 0 50 50) (SDL_KEYDOWN SDLK_MINUS) shrunk) = 50 \<and>
   shape_surface (handle_event (env_at 0 50 50) (SDL_KEYDOWN SDLK_MINUS) shrunk) =
     shape_surface shrunk \<and>
   handle_event (env_at 0 50 50) (SDL_WINDOWEVENT SDL_WINDOWEVENT_SIZE_CHANGED 50 70) shrunk =
     shrunk"
  using same_size_resize [of "SDL_KEYDOWN SDLK_MINUS" shrunk "env_at 0 50 50" 50 70]
  by (simp add: shrunk_eq started_eq env_at_def clamp_min_def wrap32_def MIN_WINDOW_SIZE_def
      SIZE_STEP_def)

text \<open>
  Claim C7 as stated fails: at the floor of 50 a press of minus asks for 50 again, and
  the window is resized and the mask regenerated all the same.
\<close>

theorem same_size_resize_counterexample:
  "current_window_size shrunk = 50 \<and>
   target_size shrunk (SDL_KEYDOWN SDLK_MINUS) = 50 \<and>
   trace (handle_event (env_at 0 50 50) (SDL_KEYDOWN SDLK_MINUS) shrunk) =
     trace shrunk @
       [SDL_SetWindowSize 50 50, SDL_FreeSurface, Create_circular_shape 50, SDL_SetWindowShape 50,
        Commit_size 50]"
  by (simp add: shrunk_eq started_eq env_at_def resize_window_eq shape_calls_def clamp_min_def
      wrap32_def MIN_WINDOW_SIZE_def SIZE_STEP_def)

subsection \<open>A resize the window manager did not honour\<close>

text \<open>
  Claim C6. When a pending window-manager resize has stabilised and the size read back
  after \<^verbatim>\<open>SDL_SetWindowSize\<close> is not square or is not the requested size, the check only
  prints the diagnostic and clears the pending resize: \<^verbatim>\<open>current_window_size\<close>, the mask,
  \<^verbatim>\<open>running\<close> and every other variable keep their values.
\<close>

theorem resize_rejected:
  "pending_resize s \<and> RESIZE_STABILIZE_MS \<le> ticks e - last_resize_time s \<and>
   \<not> (actual_w e = actual_h e \<and> actual_w e = pending_size s) \<longrightarrow>
     check_stabilized_resize e s =
       s\<lparr>pending_resize := False,
         trace := trace s @
           [SDL_SetWindowSize (pending_size s) (pending_size s), SDL_GetWindowSize,
            Printf ''Resize failed: requested %dx%d, actual %dx%d''
              [pending_size s, pending_size s, actual_w e, actual_h e]]\<rparr> \<and>
     current_window_size (check_stabilized_resize e s) = current_window_size s \<and>
     shape_surface (check_stabilized_resize e s) = shape_surface s \<and>
     \<not> pending_resize (check_stabilized_resize e s) \<and>
     running (check_stabilized_resize e s) = running s"
  by (auto simp: check_eq)

theorem resize_rejected_witness:
  "pending_resize (handle_event (env_at 0 200 200)
      (SDL_WINDOWEVENT SDL_WINDOWEVENT_SIZE_CHANGED 200 200) (started 100)) \<and>
   current_window_size (check_stabilized_resize (env_at 100 200 180)
      (handle_event (env_at 0 200 200)
         (SDL_WINDOWEVENT SDL_WINDOWEVENT_SIZE_CHANGED 200 200) (started 100))) = 100 \<and>
   trace (check_stabilized_resize (env_at 100 200 180)
      (handle_event (env_at 0 200 200)
         (SDL_WINDOWEVENT SDL_WINDOWEVENT_SIZE_CHANGED 200 200) (started 100))) =
     trace (started 100) @
       [SDL_SetWindowSize 200 200, SDL_GetWindowSize,
        Printf ''Resize failed: requested %dx%d, actual %dx%d'' [200, 200, 200, 180]]"
  using resize_rejected [of "handle_event (env_at 0 200 200)
      (SDL_WINDOWEVENT SDL_WINDOWEVENT_SIZE_CHANGED 200 200) (started 100)" "env_at 100 200 180"]
  by (simp add: started_eq env_at_def MIN_WINDOW_SIZE_def RESIZE_STABILIZE_MS_def)

subsection \<open>Window-manager resizes are debounced\<close>

lemma window_resizes_append [simp]:
  "window_resizes (xs @ ys) = window_resizes xs @ window_resizes ys"
  by (simp add: window_resizes_def)

lemma window_resizes_Nil [simp]: "window_resizes [] = []"
  by (simp add: window_resizes_def)

lemma window_resizes_Cons [simp]:
  "window_resizes (ef # tr) =
     (case ef of SDL_SetWindowSize w h \<Rightarrow> [(w, h)] | _ \<Rightarrow> []) @ window_resizes tr"
  by (simp add: window_resizes_def)

lemma window_resizes_shape_calls [simp]: "window_resizes (shape_calls ok n) = []"
  by (simp add: shape_calls_def)

lemma size_changed_eq:
  "handle_event e (size_changed w h) s =
     (if MIN_WINDOW_SIZE \<le> candidate w h \<and> candidate w h \<noteq> current_window_size s
      then s\<lparr>pending_resize := True, pending_size := candidate w h, last_resize_time := ticks e\<rparr>
      else s)"
  by (simp add: size_changed_def candidate_def Let_def)

lemma poll_events_append: "poll_events (xs @ ys) s = poll_events ys (poll_events xs s)"
  by (induction xs arbitrary: s) auto

lemma burst_state:
  "poll_events (map (\<lambda>(e, w, h). (e, size_changed w h)) burst) s =
     (if recorded (current_window_size s) burst = [] then s
      else s\<lparr>pending_resize := True,
             pending_size := candidate (fst (snd (last (recorded (current_window_size s) burst))))
                                       (snd (snd (last (recorded (current_window_size s) burst)))),
             last_resize_time := ticks (fst (last (recorded (current_window_size s) burst)))\<rparr>)"
proof (induction burst rule: rev_induct)
  case Nil
  show ?case by (simp add: recorded_def)
next
  case (snoc x xs)
  obtain e w h where x: "x = (e, w, h)" by (cases x)
  let ?s = "poll_events (map (\<lambda>(e, w, h). (e, size_changed w h)) xs) s"
  have cur: "current_window_size ?s = current_window_size s"
    by (simp add: snoc.IH)
  have step: "poll_events (map (\<lambda>(e, w, h). (e, size_changed w h)) (xs @ [x])) s =
      handle_event e (size_changed w h) ?s"
    by (simp add: poll_events_append x)
  show ?case
  proof (cases "MIN_WINDOW_SIZE \<le> candidate w h \<and> candidate w h \<noteq> current_window_size s")
    case True
    then have r: "recorded (current_window_size s) (xs @ [x]) = recorded (current_window_size s) xs @ [x]"
      by (simp add: recorded_def x)
    show ?thesis
      unfolding step size_changed_eq cur r
      using True by (simp add: snoc.IH x)
  next
    case False
    then have r: "recorded (current_window_size s) (xs @ [x]) = recorded (current_window_size s) xs"
      by (auto simp: recorded_def x)
    have h: "handle_event e (size_changed w h) ?s = ?s"
      unfolding size_changed_eq cur using False by (rule if_not_P)
    show ?thesis
      unfolding step h r by (rule snoc.IH)
  qed
qed

text \<open>
  Claim C5, as amended. A size-changed event reporting \<open>w\<close> by \<open>h\<close> records the candidate
  \<open>min w h\<close> with the time of the event, over any earlier pending request, exactly when
  the candidate is at least \<open>MIN_WINDOW_SIZE\<close> and differs from the current size; otherwise
  it changes nothing. After a burst of such events the pending request is the last one
  that passed this test: the last recorded candidate, not the last reported one. The check
  that runs at least 100 ms after that event calls \<^verbatim>\<open>SDL_SetWindowSize\<close> once, with this
  candidate, and clears the request, so that a later check does nothing; a check that runs
  earlier does nothing.
\<close>

theorem debounce:
  "handle_event e (size_changed w h) s =
     (if MIN_WINDOW_SIZE \<le> candidate w h \<and> candidate w h \<noteq> current_window_size s
      then s\<lparr>pending_resize := True, pending_size := candidate w h, last_resize_time := ticks e\<rparr>
      else s) \<and>
   (recorded (current_window_size s) burst \<noteq> [] \<and>
    last (recorded (current_window_size s) burst) = (el, wl, hl) \<and>
    s' = poll_events (map (\<lambda>(e, w, h). (e, size_changed w h)) burst) s \<longrightarrow>
      s' = s\<lparr>pending_resize := True, pending_size := candidate wl hl,
              last_resize_time := ticks el\<rparr> \<and>
      (RESIZE_STABILIZE_MS \<le> ticks e' - ticks el \<longrightarrow>
         window_resizes (trace (check_stabilized_resize e' s')) =
           window_resizes (trace s) @ [(candidate wl hl, candidate wl hl)] \<and>
         \<not> pending_resize (check_stabilized_resize e' s') \<and>
         check_stabilized_resize e'' (check_stabilized_resize e' s') =
           check_stabilized_resize e' s') \<and>
      (\<not> RESIZE_STABILIZE_MS \<le> ticks e' - ticks el \<longrightarrow> check_stabilized_resize e' s' = s'))"
proof (intro conjI impI)
  show "handle_event e (size_changed w h) s =
     (if MIN_WINDOW_SIZE \<le> candidate w h \<and> candidate w h \<noteq> current_window_size s
      then s\<lparr>pending_resize := True, pending_size := candidate w h, last_resize_time := ticks e\<rparr>
      else s)"
    by (rule size_changed_eq)
next
  assume a: "recorded (current_window_size s) burst \<noteq> [] \<and>
    last (recorded (current_window_size s) burst) = (el, wl, hl) \<and>
    s' = poll_events (map (\<lambda>(e, w, h). (e, size_changed w h)) burst) s"
  then show s': "s' = s\<lparr>pending_resize := True, pending_size := candidate wl hl,
              last_resize_time := ticks el\<rparr>"
    by (simp add: burst_state)
  {
    assume q: "RESIZE_STABILIZE_MS \<le> ticks e' - ticks el"
    show "window_resizes (trace (check_stabilized_resize e' s')) =
           window_resizes (trace s) @ [(candidate wl hl, candidate wl hl)]"
      using q by (simp add: s' check_eq)
    show "\<not> pending_resize (check_stabilized_resize e' s')"
      using q by (simp add: s' check_eq)
    then show "check_stabilized_resize e'' (check_stabilized_resize e' s') =
           check_stabilized_resize e' s'"
      by (simp add: check_eq [of e''])
  }
  {
    assume "\<not> RESIZE_STABILIZE_MS \<le> ticks e' - ticks el"
    then show "check_stabilized_resize e' s' = s'"
      by (simp add: s' check_eq)
  }
qed

theorem debounce_witness:
  "recorded (current_window_size (started 100))
     [(env_at 0 150 160, 150, 160), (env_at 10 30 300, 30, 300), (env_at 20 200 210, 200, 210)] \<noteq> [] \<and>
   last (recorded (current_window_size (started 100))
     [(env_at 0 150 160, 150, 160), (env_at 10 30 300, 30, 300), (env_at 20 200 210, 200, 210)]) =
     (env_at 20 200 210, 200, 210) \<and>
   window_resizes (trace (check_stabilized_resize (env_at 120 200 200)
     (poll_events [(env_at 0 150 160, size_changed 150 160), (env_at 10 30 300, size_changed 30 300),
                   (env_at 20 200 210, size_changed 200 210)] (started 100)))) = [(200, 200)] \<and>
   check_stabilized_resize (env_at 119 200 200)
     (poll_events [(env_at 0 150 160, size_changed 150 160), (env_at 10 30 300, size_changed 30 300),
                   (env_at 20 200 210, size_changed 200 210)] (started 100)) =
     poll_events [(env_at 0 150 160, size_changed 150 160), (env_at 10 30 300, size_changed 30 300),
                   (env_at 20 200 210, size_changed 200 210)] (started 100)"
  using debounce [of "env_at 0 150 160" 150 160 "started 100"
      "[(env_at 0 150 160, 150, 160), (env_at 10 30 300, 30, 300), (env_at 20 200 210, 200, 210)]"
      "env_at 20 200 210" 200 210
      "poll_events [(env_at 0 150 160, size_changed 150 160), (env_at 10 30 300, size_changed 30 300),
                   (env_at 20 200 210, size_changed 200 210)] (started 100)"
      "env_at 120 200 200" "env_at 500 200 200"]
    debounce [of "env_at 0 150 160" 150 160 "started 100"
      "[(env_at 0 150 160, 150, 160), (env_at 10 30 300, 30, 300), (env_at 20 200 210, 200, 210)]"
      "env_at 20 200 210" 200 210
      "poll_events [(env_at 0 150 160, size_changed 150 160), (env_at 10 30 300, size_changed 30 300),
                   (env_at 20 200 210, size_changed 200 210)] (started 100)"
      "env_at 119 200 200" "env_at 500 200 200"]
  by (simp add: started_eq env_at_def recorded_def candidate_def size_changed_def
      MIN_WINDOW_SIZE_def RESIZE_STABILIZE_MS_def)

text \<open>
  Claim C5 as stated fails. At size 100 the window manager reports 300 by 300 and then
  100 by 100: the last event is not recorded, because its candidate is the current size,
  and after the quiet period the window is resized to 300, the intermediate candidate.
\<close>

theorem debounce_counterexample:
  "window_resizes (trace (check_stabilized_resize (env_at 200 300 300)
     (poll_events [(env_at 0 300 300, size_changed 300 300), (env_at 10 100 100, size_changed 100 100)]
        (started 100)))) = [(300, 300)] \<and>
   current_window_size (check_stabilized_resize (env_at 200 300 300)
     (poll_events [(env_at 0 300 300, size_changed 300 300), (env_at 10 100 100, size_changed 100 100)]
        (started 100))) = 300 \<and>
   candidate 100 100 = 100"
  by (simp add: started_eq env_at_def check_eq candidate_def size_changed_def
      MIN_WINDOW_SIZE_def RESIZE_STABILIZE_MS_def)

subsection \<open>Capture errors do not stop the loop\<close>

lemma running_resize_window [simp]: "running (resize_window e s) = running s"
  by (simp add: resize_window_eq)

lemma running_handle_event: "\<not> quit_event ev \<Longrightarrow> running (handle_event e ev s) = running s"
proof (cases ev)
  case (SDL_KEYDOWN key)
  assume "\<not> quit_event ev"
  then show ?thesis by (cases key) (simp_all add: SDL_KEYDOWN)
next
  case SDL_QUIT
  assume "\<not> quit_event ev"
  then show ?thesis by (simp add: SDL_QUIT)
next
  case (SDL_MOUSEBUTTONDOWN b)
  then show ?thesis by simp
next
  case (SDL_MOUSEBUTTONUP b)
  then show ?thesis by simp
next
  case SDL_MOUSEMOTION
  then show ?thesis by (simp add: Let_def)
next
  case (SDL_MOUSEWHEEL y)
  then show ?thesis by simp
next
  case (SDL_WINDOWEVENT w d1 d2)
  then show ?thesis by (simp add: Let_def)
next
  case SDL_other_event
  then show ?thesis by simp
qed

lemma running_poll_events:
  "list_all (\<lambda>(e, ev). \<not> quit_event ev) evs \<Longrightarrow> running (poll_events evs s) = running s"
proof (induction evs arbitrary: s)
  case Nil
  show ?case by simp
next
  case (Cons x evs)
  obtain e ev where x: "x = (e, ev)" by (cases x)
  from Cons.prems have q: "\<not> quit_event ev" and r: "list_all (\<lambda>(e, ev). \<not> quit_event ev) evs"
    by (simp_all add: x)
  have "running (poll_events (x # evs) s) = running (handle_event e ev s)"
    unfolding x poll_events.simps by (rule Cons.IH [OF r])
  then show ?case by (simp only: running_handle_event [OF q])
qed

lemma running_check [simp]: "running (check_stabilized_resize e s) = running s"
  by (simp add: check_eq)

lemma running_render [simp]: "running (render s) = running s"
  by (simp add: render_def)

lemma running_capture [simp]: "running (capture_cycle c s) = running s"
  by (simp add: capture_cycle_def VIDIOC_DQBUF_def VIDIOC_QBUF_def Let_def split: option.splits)

lemma running_loop_body: "running (loop_body it s) = running (poll_events (events it) s)"
  by (simp add: loop_body_def)

lemma running_main_loop: "no_quit its \<Longrightarrow> running s \<Longrightarrow> running (main_loop its s)"
proof (induction its arbitrary: s)
  case Nil
  then show ?case by simp
next
  case (Cons it its)
  from Cons.prems have q: "list_all (\<lambda>(e, ev). \<not> quit_event ev) (events it)" and n: "no_quit its"
    by (simp_all add: no_quit_def)
  have "running (loop_body it s)"
    using Cons.prems(2) by (simp add: running_loop_body running_poll_events [OF q])
  from Cons.IH [OF n this] show ?case using Cons.prems(2) by simp
qed

lemma startup_running:
  assumes "startup b wsize = Inr s"
  shows "running s"
proof -
  from startup_Inr [OF assms] obtain n where
    "s = (initial_state wsize)\<lparr>current_window_size := wsize,
                 shape_surface := shape_of True wsize, req_count := n,
                 mapped := [0 ..< n], queued := [0 ..< n],
                 trace := [Create_circular_shape wsize, SDL_SetWindowShape wsize, Commit_size wsize]\<rparr>"
    by blast
  then show ?thesis by (simp add: initial_state_def)
qed

text \<open>
  Claim C8. A failed \<^verbatim>\<open>select\<close>, a \<^verbatim>\<open>select\<close> that times out (the timeout passed is 2
  seconds), a failed \<^verbatim>\<open>VIDIOC_DQBUF\<close> and a failed \<^verbatim>\<open>VIDIOC_QBUF\<close> each append their
  diagnostic to the trace and leave \<^verbatim>\<open>running\<close> as it was; whether the loop goes on
  depends on the events of the iteration only, and while \<^verbatim>\<open>running\<close> holds the loop goes
  to its next iteration. So in a run without a quit event and without the Escape key the
  loop is still running after any number of iterations, whatever the capture calls
  answered: \<^verbatim>\<open>main\<close> has not returned.
\<close>

theorem transient_errors:
  "(select_r c < 0 \<longrightarrow>
      capture_cycle c s = s\<lparr>trace := trace s @ [Select 2, Perror ''select'']\<rparr>) \<and>
   (select_r c = 0 \<longrightarrow>
      capture_cycle c s = s\<lparr>trace := trace s @ [Select 2, Fprintf_stderr ''select timeout'']\<rparr>) \<and>
   (0 < select_r c \<and> dqbuf_r c = None \<longrightarrow>
      capture_cycle c s = s\<lparr>trace := trace s @ [Select 2, Perror ''VIDIOC_DQBUF'']\<rparr>) \<and>
   (0 < select_r c \<and> dqbuf_r c = Some i \<and> i \<in> set (queued s) \<and> \<not> qbuf_r c \<longrightarrow>
      capture_cycle c s =
        s\<lparr>queued := remove1 i (queued s), dequeued := dequeued s @ [i],
          trace := trace s @ [Select 2, SDL_UpdateTexture i, Perror ''VIDIOC_QBUF'']\<rparr>) \<and>
   running (capture_cycle c s) = running s \<and>
   running (loop_body it s) = running (poll_events (events it) s) \<and>
   (running s \<longrightarrow> main_loop (it # its) s = main_loop its (loop_body it s)) \<and>
   (parse_args atoi args = Inr (on_top, wsize, dev) \<and> startup b wsize = Inr s0 \<and> no_quit its \<longrightarrow>
      running (main_loop its s0) \<and> circam_main atoi args b its = None)"
proof (intro conjI impI)
  show "running (capture_cycle c s) = running s" by simp
  show "running (loop_body it s) = running (poll_events (events it) s)" by (rule running_loop_body)
next
  assume "select_r c < 0"
  then show "capture_cycle c s = s\<lparr>trace := trace s @ [Select 2, Perror ''select'']\<rparr>"
    by (simp add: capture_cycle_def)
next
  assume "select_r c = 0"
  then show "capture_cycle c s = s\<lparr>trace := trace s @ [Select 2, Fprintf_stderr ''select timeout'']\<rparr>"
    by (simp add: capture_cycle_def)
next
  assume "0 < select_r c \<and> dqbuf_r c = None"
  then show "capture_cycle c s = s\<lparr>trace := trace s @ [Select 2, Perror ''VIDIOC_DQBUF'']\<rparr>"
    by (simp add: capture_cycle_def VIDIOC_DQBUF_def)
next
  assume "0 < select_r c \<and> dqbuf_r c = Some i \<and> i \<in> set (queued s) \<and> \<not> qbuf_r c"
  then show "capture_cycle c s =
        s\<lparr>queued := remove1 i (queued s), dequeued := dequeued s @ [i],
          trace := trace s @ [Select 2, SDL_UpdateTexture i, Perror ''VIDIOC_QBUF'']\<rparr>"
    by (simp add: capture_cycle_def VIDIOC_DQBUF_def VIDIOC_QBUF_def)
next
  assume "running s"
  then show "main_loop (it # its) s = main_loop its (loop_body it s)" by simp
next
  assume a: "parse_args atoi args = Inr (on_top, wsize, dev) \<and> startup b wsize = Inr s0 \<and> no_quit its"
  then have "running s0" using startup_running by blast
  with a show r: "running (main_loop its s0)" using running_main_loop by blast
  from a r show "circam_main atoi args b its = None"
    by (simp add: circam_main_def)
qed

theorem transient_errors_witness:
  "parse_args (\<lambda>a. 0) [''/dev/video0''] = Inr (False, 480, ''/dev/video0'') \<and>
   startup (boot_granting 4) 480 = Inr (started 480) \<and>
   no_quit
     [\<lparr>events = [], check_env = env_at 0 480 480,
        capture = \<lparr>select_r = - 1, dqbuf_r = None, qbuf_r = True\<rparr>\<rparr>,
      \<lparr>events = [], check_env = env_at 2000 480 480,
        capture = \<lparr>select_r = 0, dqbuf_r = None, qbuf_r = True\<rparr>\<rparr>,
      \<lparr>events = [], check_env = env_at 4000 480 480,
        capture = \<lparr>select_r = 1, dqbuf_r = None, qbuf_r = True\<rparr>\<rparr>,
      \<lparr>events = [], check_env = env_at 4010 480 480,
        capture = \<lparr>select_r = 1, dqbuf_r = Some 0, qbuf_r = False\<rparr>\<rparr>] \<and>
   circam_main (\<lambda>a. 0) [''/dev/video0''] (boot_granting 4)
     [\<lparr>events = [], check_env = env_at 0 480 480,
        capture = \<lparr>select_r = - 1, dqbuf_r = None, qbuf_r = True\<rparr>\<rparr>,
      \<lparr>events = [], check_env = env_at 2000 480 480,
        capture = \<lparr>select_r = 0, dqbuf_r = None, qbuf_r = True\<rparr>\<rparr>,
      \<lparr>events = [], check_env = env_at 4000 480 480,
        capture = \<lparr>select_r = 1, dqbuf_r = None, qbuf_r = True\<rparr>\<rparr>,
      \<lparr>events = [], check_env = env_at 4010 480 480,
        capture = \<lparr>select_r = 1, dqbuf_r = Some 0, qbuf_r = False\<rparr>\<rparr>] = None \<and>
   trace (capture_cycle \<lparr>select_r = - 1, dqbuf_r = None, qbuf_r = True\<rparr> (started 480)) =
     trace (started 480) @ [Select 2, Perror ''select''] \<and>
   trace (capture_cycle \<lparr>select_r = 0, dqbuf_r = None, qbuf_r = True\<rparr> (started 480)) =
     trace (started 480) @ [Select 2, Fprintf_stderr ''select timeout''] \<and>
   trace (capture_cycle \<lparr>select_r = 1, dqbuf_r = None, qbuf_r = True\<rparr> (started 480)) =
     trace (started 480) @ [Select 2, Perror ''VIDIOC_DQBUF''] \<and>
   trace (capture_cycle \<lparr>select_r = 1, dqbuf_r = Some 0, qbuf_r = False\<rparr> (started 480)) =
     trace (started 480) @ [Select 2, SDL_UpdateTexture 0, Perror ''VIDIOC_QBUF''] \<and>
   running (capture_cycle \<lparr>select_r = 1, dqbuf_r = Some 0, qbuf_r = False\<rparr> (started 480))"
  using
    transient_errors [where c = "\<lparr>select_r = - 1, dqbuf_r = None, qbuf_r = True\<rparr>" and s = "started 480"
      and atoi = "\<lambda>a. 0" and args = "[''/dev/video0'']" and on_top = False and wsize = 480
      and dev = "''/dev/video0''" and b = "boot_granting 4" and ?s0.0 = "started 480"
      and its = "[\<lparr>events = [], check_env = env_at 0 480 480,
        capture = \<lparr>select_r = - 1, dqbuf_r = None, qbuf_r = True\<rparr>\<rparr>,
      \<lparr>events = [], check_env = env_at 2000 480 480,
        capture = \<lparr>select_r = 0, dqbuf_r = None, qbuf_r = True\<rparr>\<rparr>,
      \<lparr>events = [], check_env = env_at 4000 480 480,
        capture = \<lparr>select_r = 1, dqbuf_r = None, qbuf_r = True\<rparr>\<rparr>,
      \<lparr>events = [], check_env = env_at 4010 480 480,
        capture = \<lparr>select_r = 1, dqbuf_r = Some 0, qbuf_r = False\<rparr>\<rparr>]"]
    transient_errors [where c = "\<lparr>select_r = 0, dqbuf_r = None, qbuf_r = True\<rparr>" and s = "started 480"]
    transient_errors [where c = "\<lparr>select_r = 1, dqbuf_r = None, qbuf_r = True\<rparr>" and s = "started 480"]
    transient_errors [where c = "\<lparr>select_r = 1, dqbuf_r = Some 0, qbuf_r = False\<rparr>" and s = "started 480"
      and i = 0]
  by (simp add: startup_started parse_args_def DEFAULT_SIZE_def started_eq no_quit_def)

subsection \<open>The buffer pool is conserved\<close>




lemma pool_inv_trace [simp]: "pool_inv (s\<lparr>trace := t\<rparr>) = pool_inv s"
  by (simp add: pool_inv_def)














lemma startup_granting:
  "startup (boot_granting n) wsize =
     Inr ((initial_state wsize)\<lparr>current_window_size := wsize,
            shape_surface := shape_of True wsize, req_count := n,
            mapped := [0 ..< n], queued := [0 ..< n],
            trace := [Create_circular_shape wsize, SDL_SetWindowShape wsize, Commit_size wsize]\<rparr>)"
  by (simp add: startup_def boot_granting_def open_device_def initial_state_def
      allocate_buffers_def map_buffers_all queue_buffers_all remove_fresh open_window_def
      create_circular_shape_def shape_of_def Let_def)




subsection \<open>Failures of the buffer allocation\<close>

text \<open>
  Claim C1, as amended. When \<^verbatim>\<open>VIDIOC_REQBUFS\<close> fails the program prints its diagnostic,
  closes the device, shuts SDL down and returns 1. When the driver granted \<open>n\<close> buffers
  and buffer \<open>k\<close> is the first whose \<^verbatim>\<open>VIDIOC_QUERYBUF\<close> or \<^verbatim>\<open>mmap\<close> fails, it prints the
  diagnostic of the failed call, frees the buffer table, closes the device, shuts SDL down
  and returns 1; the \<open>k\<close> buffers mapped before stay mapped, no \<^verbatim>\<open>munmap\<close> is called.
  When the driver granted \<open>n\<close> buffers, however few, and each of them is mapped and
  queued, the allocation succeeds with these \<open>n\<close> buffers.
\<close>

theorem allocation_failure:
  "(reqbufs_r b = None \<longrightarrow>
      allocate_buffers b s =
        Inl (1, s\<lparr>trace := trace s @ [Perror ''VIDIOC_REQBUFS'', Close, SDL_Quit]\<rparr>)) \<and>
   (reqbufs_r b = Some n \<and> k < n \<and> (\<forall>j<k. querybuf_ok b j \<and> mmap_ok b j) \<and>
    \<not> (querybuf_ok b k \<and> mmap_ok b k) \<longrightarrow>
      allocate_buffers b s =
        Inl (1, s\<lparr>req_count := n, mapped := mapped s @ [0 ..< k],
                  trace := trace s @
                    [Perror (if querybuf_ok b k then ''mmap'' else ''VIDIOC_QUERYBUF''),
                     Free, Close, SDL_Quit]\<rparr>)) \<and>
   (reqbufs_r b = Some n \<and> (\<forall>j<n. querybuf_ok b j \<and> mmap_ok b j \<and> qbuf_ok b j) \<and>
    dequeued s = [] \<longrightarrow>
      allocate_buffers b s =
        Inr (s\<lparr>req_count := n, mapped := mapped s @ [0 ..< n], queued := queued s @ [0 ..< n]\<rparr>))"
proof (intro conjI impI)
  assume "reqbufs_r b = None"
  then show "allocate_buffers b s =
        Inl (1, s\<lparr>trace := trace s @ [Perror ''VIDIOC_REQBUFS'', Close, SDL_Quit]\<rparr>)"
    by (simp add: allocate_buffers_def)
next
  assume a: "reqbufs_r b = Some n \<and> k < n \<and> (\<forall>j<k. querybuf_ok b j \<and> mmap_ok b j) \<and>
    \<not> (querybuf_ok b k \<and> mmap_ok b k)"
  have "map_buffers b 0 (s\<lparr>req_count := n\<rparr>) =
     Inl (1, s\<lparr>req_count := n\<rparr>\<lparr>mapped := mapped (s\<lparr>req_count := n\<rparr>) @ [0 ..< k],
               trace := trace (s\<lparr>req_count := n\<rparr>) @
                 [Perror (if querybuf_ok b k then ''mmap'' else ''VIDIOC_QUERYBUF''),
                  Free, Close, SDL_Quit]\<rparr>)"
    using a by (intro map_buffers_fails) auto
  then show "allocate_buffers b s =
        Inl (1, s\<lparr>req_count := n, mapped := mapped s @ [0 ..< k],
                  trace := trace s @
                    [Perror (if querybuf_ok b k then ''mmap'' else ''VIDIOC_QUERYBUF''),
                     Free, Close, SDL_Quit]\<rparr>)"
    using a by (simp add: allocate_buffers_def)
next
  assume a: "reqbufs_r b = Some n \<and> (\<forall>j<n. querybuf_ok b j \<and> mmap_ok b j \<and> qbuf_ok b j) \<and>
    dequeued s = []"
  have m: "map_buffers b 0 (s\<lparr>req_count := n\<rparr>) =
      Inr (s\<lparr>req_count := n, mapped := mapped s @ [0 ..< n]\<rparr>)"
    using a map_buffers_all [of 0 "s\<lparr>req_count := n\<rparr>" b] by simp
  have q: "queue_buffers b 0 (s\<lparr>req_count := n, mapped := mapped s @ [0 ..< n]\<rparr>) =
      Inr (s\<lparr>req_count := n, mapped := mapped s @ [0 ..< n], queued := queued s @ [0 ..< n]\<rparr>)"
    using a queue_buffers_all [of 0 "s\<lparr>req_count := n, mapped := mapped s @ [0 ..< n]\<rparr>" b]
    by (simp add: remove_fresh)
  show "allocate_buffers b s =
        Inr (s\<lparr>req_count := n, mapped := mapped s @ [0 ..< n], queued := queued s @ [0 ..< n]\<rparr>)"
    using a by (simp add: allocate_buffers_def m q)
qed

theorem allocation_failure_witness:
  "allocate_buffers ((boot_granting 4)\<lparr>reqbufs_r := None\<rparr>) (initial_state 100) =
     Inl (1, (initial_state 100)\<lparr>trace := [Perror ''VIDIOC_REQBUFS'', Close, SDL_Quit]\<rparr>) \<and>
   allocate_buffers ((boot_granting 4)\<lparr>mmap_ok := (\<lambda>i. i < 2)\<rparr>) (initial_state 100) =
     Inl (1, (initial_state 100)\<lparr>req_count := 4, mapped := [0, 1],
               trace := [Perror ''mmap'', Free, Close, SDL_Quit]\<rparr>) \<and>
   allocate_buffers (boot_granting 2) (initial_state 100) =
     Inr ((initial_state 100)\<lparr>req_count := 2, mapped := [0, 1], queued := [0, 1]\<rparr>)"
  using
    allocation_failure [where b = "(boot_granting 4)\<lparr>reqbufs_r := None\<rparr>" and s = "initial_state 100"]
    allocation_failure [where b = "(boot_granting 4)\<lparr>mmap_ok := (\<lambda>i. i < 2)\<rparr>"
      and s = "initial_state 100" and n = 4 and k = 2]
    allocation_failure [where b = "boot_granting 2" and s = "initial_state 100" and n = 2]
  by (simp add: boot_granting_def initial_state_def upt_conv_Cons)

text \<open>
  Claim C1 as stated fails twice. With four buffers granted and \<^verbatim>\<open>mmap\<close> failing for
  buffer 2, \<^verbatim>\<open>main\<close> returns 1 with buffers 0 and 1 still mapped and without a call of
  \<^verbatim>\<open>munmap\<close>. With only two buffers granted start-up succeeds and the program goes on
  with a pool of two.
\<close>

theorem allocation_failure_counterexample:
  "startup ((boot_granting 4)\<lparr>mmap_ok := (\<lambda>i. i < 2)\<rparr>) 100 =
     Inl (1, (initial_state 100)\<lparr>req_count := 4, mapped := [0, 1],
               trace := [Perror ''mmap'', Free, Close, SDL_Quit]\<rparr>) \<and>
   Munmap 0 \<notin> set [Perror ''mmap'', Free, Close, SDL_Quit] \<and>
   Munmap 1 \<notin> set [Perror ''mmap'', Free, Close, SDL_Quit] \<and>
   \<not> isl (startup (boot_granting 2) 100) \<and>
   req_count (projr (startup (boot_granting 2) 100)) = 2 \<and>
   mapped (projr (startup (boot_granting 2) 100)) = [0, 1] \<and>
   queued (projr (startup (boot_granting 2) 100)) = [0, 1]"
proof -
  have "map_buffers ((boot_granting 4)\<lparr>mmap_ok := (\<lambda>i. i < 2)\<rparr>) 0
          ((initial_state 100)\<lparr>req_count := 4\<rparr>) =
        Inl (1, (initial_state 100)\<lparr>req_count := 4, mapped := [0, 1],
               trace := [Perror ''mmap'', Free, Close, SDL_Quit]\<rparr>)"
    using map_buffers_fails [of 0 2 "(initial_state 100)\<lparr>req_count := 4\<rparr>"
        "(boot_granting 4)\<lparr>mmap_ok := (\<lambda>i. i < 2)\<rparr>"]
    by (simp add: boot_granting_def initial_state_def upt_conv_Cons)
  then have "startup ((boot_granting 4)\<lparr>mmap_ok := (\<lambda>i. i < 2)\<rparr>) 100 =
     Inl (1, (initial_state 100)\<lparr>req_count := 4, mapped := [0, 1],
               trace := [Perror ''mmap'', Free, Close, SDL_Quit]\<rparr>)"
    by (simp add: startup_def open_device_def allocate_buffers_def boot_granting_def)
  then show ?thesis
    by (simp add: startup_granting initial_state_def upt_conv_Cons)
qed

end
